theory Spec2Isabelle
  imports Complex_Main
begin

section \<open>JavaScript values\<close>

text \<open>
  The validator of \<^verbatim>\<open>src/app/scripts/lib/lforms-validate.js\<close> is dynamically typed: the
  user's value, the restriction values and the entries of the error array are arbitrary
  JavaScript values. The embedding covers the shapes the validator distinguishes:
  \<^item> \<open>JUndefined\<close>, \<open>JNull\<close>, booleans and strings;
  \<^item> \<open>JNum n\<close>: a number with the integer value \<open>n\<close>, meant for the integers a double
    holds and JavaScript prints in full, those of magnitude below \<open>2^53\<close> (fractions,
    \<open>NaN\<close> and the infinities occur only as results of \<open>parseFloat\<close> and \<open>parseInt\<close>,
    type \<open>jsnum\<close>);
  \<^item> \<open>JObj t\<close>: a plain data object whose \<open>text\<close> property is \<open>t\<close> (\<open>None\<close> when it has
    none); it has no \<open>length\<close> property and the default \<open>toString\<close>;
  \<^item> \<open>JArr xs\<close>: an array.

  Strings are lists of 8-bit characters: the code units below 256.
\<close>

datatype jsval =
    JUndefined
  | JNull
  | JBool bool
  | JNum int
  | JStr string
  | JObj "jsval option"
  | JArr "jsval list"

definition digit_char :: "nat \<Rightarrow> char" where
  "digit_char d = char_of (48 + d)"

fun digits_of :: "nat \<Rightarrow> string" where
  "digits_of n = (if n < 10 then [digit_char n] else digits_of (n div 10) @ [digit_char (n mod 10)])"

declare digits_of.simps [simp del]

definition int_to_string :: "int \<Rightarrow> string" where
  "int_to_string i = (if i < 0 then CHR ''-'' # digits_of (nat (- i)) else digits_of (nat i))"

fun join_comma :: "string list \<Rightarrow> string" where
  "join_comma [] = []"
| "join_comma [x] = x"
| "join_comma (x # y # ys) = x @ CHR '','' # join_comma (y # ys)"

text \<open>
  \<open>ToString\<close> of ECMAScript on the modelled values. An array is joined with commas, its
  \<open>undefined\<close> and \<open>null\<close> elements printing as the empty string. Numbers print in decimal
  notation (as JavaScript prints integers of magnitude below \<open>10^21\<close>).
\<close>

fun ToString :: "jsval \<Rightarrow> string" where
  "ToString JUndefined = ''undefined''"
| "ToString JNull = ''null''"
| "ToString (JBool b) = (if b then ''true'' else ''false'')"
| "ToString (JNum n) = int_to_string n"
| "ToString (JStr s) = s"
| "ToString (JObj t) = ''[object Object]''"
| "ToString (JArr xs) =
     join_comma (map (\<lambda>x. if x = JUndefined \<or> x = JNull then [] else ToString x) xs)"

text \<open>\<open>value.length\<close>: defined for strings and arrays, \<open>undefined\<close> (\<open>None\<close>) otherwise.\<close>

fun js_length :: "jsval \<Rightarrow> nat option" where
  "js_length (JStr s) = Some (length s)"
| "js_length (JArr xs) = Some (length xs)"
| "js_length _ = None"

section \<open>Numbers: parseFloat, parseInt and the comparisons\<close>

text \<open>
  A result of \<open>parseFloat\<close> or \<open>parseInt\<close>. A finite result carries the exact value of the
  decimal literal; the rounding of that value to an IEEE double is not modelled.
\<close>

datatype jsnum = NaN | NegInf | Fin rat | PosInf

fun num_lt :: "jsnum \<Rightarrow> jsnum \<Rightarrow> bool" where
  "num_lt NaN _ = False"
| "num_lt _ NaN = False"
| "num_lt (Fin x) (Fin y) = (x < y)"
| "num_lt NegInf NegInf = False"
| "num_lt NegInf _ = True"
| "num_lt _ NegInf = False"
| "num_lt PosInf _ = False"
| "num_lt _ PosInf = True"

text \<open>
  The relational operators of ECMAScript: \<open>a > b\<close> is \<open>b < a\<close>; \<open>a <= b\<close> is the negation
  of \<open>b < a\<close> and \<open>a >= b\<close> the negation of \<open>a < b\<close>, except that every comparison with
  \<open>NaN\<close> is false.
\<close>

definition num_gt :: "jsnum \<Rightarrow> jsnum \<Rightarrow> bool" where
  "num_gt a b = num_lt b a"

definition num_le :: "jsnum \<Rightarrow> jsnum \<Rightarrow> bool" where
  "num_le a b = (a \<noteq> NaN \<and> b \<noteq> NaN \<and> \<not> num_lt b a)"

definition num_ge :: "jsnum \<Rightarrow> jsnum \<Rightarrow> bool" where
  "num_ge a b = (a \<noteq> NaN \<and> b \<noteq> NaN \<and> \<not> num_lt a b)"

definition is_digit :: "char \<Rightarrow> bool" where
  "is_digit c = (48 \<le> (of_char c :: nat) \<and> (of_char c :: nat) \<le> 57)"

text \<open>White space and line terminators of ECMAScript among the code units below 256.\<close>

definition is_space :: "char \<Rightarrow> bool" where
  "is_space c = (of_char c \<in> set [9, 10, 11, 12, 13, 32, 160 :: nat])"

definition digit_val :: "char \<Rightarrow> nat" where
  "digit_val c = of_char c - 48"

definition dec_val :: "string \<Rightarrow> nat" where
  "dec_val ds = foldl (\<lambda>a c. 10 * a + digit_val c) 0 ds"

definition is_hex_digit :: "char \<Rightarrow> bool" where
  "is_hex_digit c = (is_digit c \<or> c \<in> set ''abcdefABCDEF'')"

definition hex_digit_val :: "char \<Rightarrow> nat" where
  "hex_digit_val c =
     (if is_digit c then digit_val c
      else if (of_char c :: nat) \<ge> 97 then of_char c - 87 else of_char c - 55)"

definition hex_val :: "string \<Rightarrow> nat" where
  "hex_val ds = foldl (\<lambda>a c. 16 * a + hex_digit_val c) 0 ds"

text \<open>An optional sign: whether it is a minus, and the rest of the string.\<close>

fun take_sign :: "string \<Rightarrow> bool \<times> string" where
  "take_sign [] = (False, [])"
| "take_sign (c # cs) =
     (if c = CHR ''-'' then (True, cs) else if c = CHR ''+'' then (False, cs) else (False, c # cs))"

text \<open>The exponent part \<open>e[+-]digits\<close> at the head of a string, 0 when there is none.\<close>

definition exponent_part :: "string \<Rightarrow> int" where
  "exponent_part r =
     (case r of
        [] \<Rightarrow> 0
      | c # cs \<Rightarrow>
          if c = CHR ''e'' \<or> c = CHR ''E'' then
            (let (neg, ds) = take_sign cs; es = takeWhile is_digit ds
             in if es = [] then 0 else if neg then - int (dec_val es) else int (dec_val es))
          else 0)"

definition scale10 :: "rat \<Rightarrow> int \<Rightarrow> rat" where
  "scale10 x e = (if 0 \<le> e then x * 10 ^ nat e else x / 10 ^ nat (- e))"

text \<open>
  \<open>parseFloat\<close> on a string: leading white space is skipped and the longest prefix that
  is a decimal literal (sign, \<open>Infinity\<close>, digits, fraction, exponent) is read; \<open>NaN\<close>
  when there is none.
\<close>

definition parse_float :: "string \<Rightarrow> jsnum" where
  "parse_float s =
     (let (neg, u) = take_sign (dropWhile is_space s) in
      if take 8 u = ''Infinity'' then (if neg then NegInf else PosInf)
      else
        let ip = takeWhile is_digit u;
            r1 = dropWhile is_digit u;
            (fp, r2) = (case r1 of
                          [] \<Rightarrow> ([], r1)
                        | c # cs \<Rightarrow> if c = CHR ''.''
                                   then (takeWhile is_digit cs, dropWhile is_digit cs)
                                   else ([], r1))
        in if ip = [] \<and> fp = [] then NaN
           else
             let m = of_nat (dec_val ip) + of_nat (dec_val fp) / 10 ^ length fp;
                 x = scale10 m (exponent_part r2)
             in Fin (if neg then - x else x))"

text \<open>
  \<open>parseInt\<close> without a radix: leading white space, a sign, then hexadecimal digits after
  \<open>0x\<close> or \<open>0X\<close> and decimal digits otherwise; \<open>NaN\<close> when no digit is read.
\<close>

definition parse_int :: "string \<Rightarrow> jsnum" where
  "parse_int s =
     (let (neg, u) = take_sign (dropWhile is_space s);
          hex = (take 2 u = ''0x'' \<or> take 2 u = ''0X'');
          ds = (if hex then takeWhile is_hex_digit (drop 2 u) else takeWhile is_digit u)
      in if ds = [] then NaN
         else let n = (if hex then hex_val ds else dec_val ds)
              in Fin (if neg then - of_nat n else of_nat n))"

definition parseFloat :: "jsval \<Rightarrow> jsnum" where
  "parseFloat v = parse_float (ToString v)"

definition parseInt :: "jsval \<Rightarrow> jsnum" where
  "parseInt v = parse_int (ToString v)"

text \<open>
  \<open>value.length\<close> against a number: \<open>undefined == n\<close> is false, and in \<open><=\<close> and \<open>>=\<close>
  \<open>undefined\<close> converts to \<open>NaN\<close>.
\<close>

definition len_eq :: "nat option \<Rightarrow> jsnum \<Rightarrow> bool" where
  "len_eq l n = (case l of None \<Rightarrow> False | Some k \<Rightarrow> n = Fin (of_nat k))"

definition len_le :: "nat option \<Rightarrow> jsnum \<Rightarrow> bool" where
  "len_le l n = (case l of None \<Rightarrow> False | Some k \<Rightarrow> num_le (Fin (of_nat k)) n)"

definition len_ge :: "nat option \<Rightarrow> jsnum \<Rightarrow> bool" where
  "len_ge l n = (case l of None \<Rightarrow> False | Some k \<Rightarrow> num_ge (Fin (of_nat k)) n)"

section \<open>Regular expressions\<close>

text \<open>
  The validator tests values against regular expression literals and, for the \<open>pattern\<close>
  restriction, against \<open>new RegExp(pattern, flags)\<close>. A regular expression is modelled
  as a syntax tree; \<open>.test\<close> is the search for a match from any start position. (The
  flags \<open>g\<close> and \<open>y\<close>, under which the search starts at the \<open>lastIndex\<close> of the object,
  are left to the engine of the host, see below.)

  \<open>Chars neg rs\<close> is a character class: the code units in the inclusive ranges \<open>rs\<close>,
  complemented when \<open>neg\<close>. \<open>Rep lo hi r\<close> is a quantifier with at least \<open>lo\<close> and at most
  \<open>hi\<close> repetitions (\<open>None\<close>: unbounded). Capture groups do not influence \<open>.test\<close> in
  the absence of back references, so a group is its body.
\<close>

datatype rx =
    Eps
  | Chars bool "(nat \<times> nat) list"
  | Dot
  | Seq rx rx
  | Alt rx rx
  | Rep nat "nat option" rx
  | Bol
  | Eol
  | WordB bool

record rxflags =
  ignoreCase :: bool
  multiline :: bool
  dotAll :: bool

definition no_flags :: rxflags where
  "no_flags = \<lparr>ignoreCase = False, multiline = False, dotAll = False\<rparr>"

definition is_line_term :: "char \<Rightarrow> bool" where
  "is_line_term c = (of_char c \<in> set [10, 13 :: nat])"

definition is_word_char :: "char \<Rightarrow> bool" where
  "is_word_char c =
     (let n = (of_char c :: nat)
      in (48 \<le> n \<and> n \<le> 57) \<or> (65 \<le> n \<and> n \<le> 90) \<or> n = 95 \<or> (97 \<le> n \<and> n \<le> 122))"

text \<open>
  \<open>Canonicalize\<close> of ECMAScript for a case-insensitive match, on the code units below
  256: the upper-case letter of a lower-case one.
\<close>

definition canon :: "nat \<Rightarrow> nat" where
  "canon n = (if (97 \<le> n \<and> n \<le> 122) \<or> (224 \<le> n \<and> n \<le> 254 \<and> n \<noteq> 247) then n - 32 else n)"

definition case_variants :: "nat \<Rightarrow> nat list" where
  "case_variants n =
     (let u = canon n
      in if (65 \<le> u \<and> u \<le> 90) \<or> (192 \<le> u \<and> u \<le> 222 \<and> u \<noteq> 215) then [u, u + 32] else [u])"

definition in_ranges :: "(nat \<times> nat) list \<Rightarrow> nat \<Rightarrow> bool" where
  "in_ranges rs n = list_ex (\<lambda>(a, b). a \<le> n \<and> n \<le> b) rs"

text \<open>
  A character matches a class when the class holds it or, ignoring case, a character
  with the same canonical form; a negated class inverts the answer.
\<close>

definition chars_match :: "bool \<Rightarrow> bool \<Rightarrow> (nat \<times> nat) list \<Rightarrow> char \<Rightarrow> bool" where
  "chars_match ic neg rs c =
     ((if ic then list_ex (in_ranges rs) (case_variants (of_char c)) else in_ranges rs (of_char c))
      \<noteq> neg)"

text \<open>
  A matcher state: the character before the current position (\<open>None\<close> at the start of
  the input) and the input that is left.
\<close>

type_synonym cfg = "char option \<times> string"

definition eat :: "(char \<Rightarrow> bool) \<Rightarrow> cfg \<Rightarrow> cfg list" where
  "eat P k = (case snd k of [] \<Rightarrow> [] | c # cs \<Rightarrow> if P c then [(Some c, cs)] else [])"

definition at_bol :: "bool \<Rightarrow> cfg \<Rightarrow> bool" where
  "at_bol ml k = (case fst k of None \<Rightarrow> True | Some c \<Rightarrow> ml \<and> is_line_term c)"

definition at_eol :: "bool \<Rightarrow> cfg \<Rightarrow> bool" where
  "at_eol ml k = (case snd k of [] \<Rightarrow> True | c # cs \<Rightarrow> ml \<and> is_line_term c)"

definition at_wordb :: "cfg \<Rightarrow> bool" where
  "at_wordb k =
     ((case fst k of None \<Rightarrow> False | Some c \<Rightarrow> is_word_char c)
      \<noteq> (case snd k of [] \<Rightarrow> False | c # cs \<Rightarrow> is_word_char c))"

text \<open>The states reached from \<open>ks\<close> by at most \<open>n\<close> further rounds of \<open>g\<close>.\<close>

primrec rep_upto :: "(cfg list \<Rightarrow> cfg list) \<Rightarrow> nat \<Rightarrow> cfg list \<Rightarrow> cfg list" where
  "rep_upto g 0 ks = ks"
| "rep_upto g (Suc n) ks = ks @ rep_upto g n (remdups (g ks))"

text \<open>
  \<open>ends f n r ks\<close>: the states in which a match of \<open>r\<close> that starts in one of the states
  \<open>ks\<close> can end. \<open>n\<close> is the length of the whole input: a state is a position of the
  input, so an unbounded quantifier reaches every state it can reach at all within \<open>n\<close>
  rounds after its mandatory ones.
\<close>

primrec ends :: "rxflags \<Rightarrow> nat \<Rightarrow> rx \<Rightarrow> cfg list \<Rightarrow> cfg list" where
  "ends f n Eps ks = ks"
| "ends f n (Chars neg rs) ks = concat (map (eat (chars_match (ignoreCase f) neg rs)) ks)"
| "ends f n Dot ks = concat (map (eat (\<lambda>c. dotAll f \<or> \<not> is_line_term c)) ks)"
| "ends f n (Seq a b) ks = ends f n b (ends f n a ks)"
| "ends f n (Alt a b) ks = ends f n a ks @ ends f n b ks"
| "ends f n (Rep lo hi r) ks =
     rep_upto (ends f n r) (case hi of None \<Rightarrow> n | Some h \<Rightarrow> h - lo) ((ends f n r ^^ lo) ks)"
| "ends f n Bol ks = filter (at_bol (multiline f)) ks"
| "ends f n Eol ks = filter (at_eol (multiline f)) ks"
| "ends f n (WordB b) ks = filter (\<lambda>k. at_wordb k = b) ks"

fun all_cfgs :: "char option \<Rightarrow> string \<Rightarrow> cfg list" where
  "all_cfgs p [] = [(p, [])]"
| "all_cfgs p (c # cs) = (p, c # cs) # all_cfgs (Some c) cs"

record regexp =
  body :: rx
  flags :: rxflags

text \<open>\<open>regex.test(s)\<close> on a regular expression without the flags \<open>g\<close> and \<open>y\<close>.\<close>

definition rx_test :: "regexp \<Rightarrow> string \<Rightarrow> bool" where
  "rx_test re s = (ends (flags re) (length s) (body re) (all_cfgs None s) \<noteq> [])"

text \<open>
  A regular expression object keeps a position, \<open>lastIndex\<close>, which is 0 when the object
  is built. \<open>.test\<close> is a function of that position and the string, and gives the answer
  and the position the object has afterwards. An expression without the flags \<open>g\<close> and
  \<open>y\<close> does not read the position and leaves it as it is.
\<close>

type_synonym rexec = "nat \<Rightarrow> string \<Rightarrow> bool \<times> nat"

definition exec_of :: "regexp \<Rightarrow> rexec" where
  "exec_of re i s = (rx_test re s, i)"

subsection \<open>Building blocks of the literals\<close>

definition seqs :: "rx list \<Rightarrow> rx" where
  "seqs rs = foldr Seq rs Eps"

fun alts :: "rx list \<Rightarrow> rx" where
  "alts [] = Eps"
| "alts [r] = r"
| "alts (r # rs) = Alt r (alts rs)"

definition lit :: "char \<Rightarrow> rx" where
  "lit c = Chars False [(of_char c, of_char c)]"

definition str :: "string \<Rightarrow> rx" where
  "str s = seqs (map lit s)"

definition rng :: "char \<Rightarrow> char \<Rightarrow> nat \<times> nat" where
  "rng a b = (of_char a, of_char b)"

definition single :: "char \<Rightarrow> nat \<times> nat" where
  "single a = (of_char a, of_char a)"

definition d_ranges :: "(nat \<times> nat) list" where
  "d_ranges = [(48, 57)]"

definition w_ranges :: "(nat \<times> nat) list" where
  "w_ranges = [(65, 90), (97, 122), (48, 57), (95, 95)]"

definition s_ranges :: "(nat \<times> nat) list" where
  "s_ranges = [(9, 13), (32, 32), (160, 160)]"

definition rx_d :: rx where "rx_d = Chars False d_ranges"
definition rx_w :: rx where "rx_w = Chars False w_ranges"
definition rx_s :: rx where "rx_s = Chars False s_ranges"

definition opt :: "rx \<Rightarrow> rx" where "opt r = Rep 0 (Some 1) r"
definition many :: "rx \<Rightarrow> rx" where "many r = Rep 0 None r"
definition many1 :: "rx \<Rightarrow> rx" where "many1 r = Rep 1 None r"

subsection \<open>The RegExp constructor\<close>

text \<open>
  \<open>new RegExp(pattern, flags)\<close> parses the pattern at run time. The parser below reads the
  pattern syntax of ECMAScript without the unicode flag: alternation, groups \<open>( )\<close> and
  \<open>(?: )\<close>, the quantifiers \<open>* + ? {n} {n,} {n,m}\<close> with an optional lazy mark, classes
  with ranges and negation, the assertions \<open>^ $ \b \B\<close>, the class escapes
  \<open>\d \D \w \W \s \S\<close>, the control escapes \<open>\t \n \v \f \r\<close> and identity escapes. It
  answers \<open>PSyntaxError\<close> where ECMAScript throws a SyntaxError, and \<open>PUnsupported\<close> for
  what it does not read: look-around, back references, named groups, numeric,
  hexadecimal, unicode and control-letter escapes, a brace that opens no quantifier, and
  the flags \<open>g\<close>, \<open>y\<close>, \<open>u\<close> and \<open>v\<close>. What it does not read is left to the engine of
  the host, a parameter of the model.

  The parser is a state machine that reads the pattern one character at a time.
\<close>

datatype 'a pres = POk 'a | PSyntaxError | PUnsupported

text \<open>Whether the last term may take a quantifier (\<open>QAtom\<close>) or a lazy mark (\<open>QQuant\<close>).\<close>

datatype qstat = QNone | QAtom | QQuant

text \<open>Inside a class: the last atom read, which may still open a range.\<close>

datatype cpend = PNone | PChar nat | PDash nat

datatype pmode =
    MNormal
  | MEscape
  | MGroupStart
  | MGroupQ
  | MClassStart
  | MClass bool "(nat \<times> nat) list" cpend
  | MClassEsc bool "(nat \<times> nat) list" cpend
  | MBrace "nat option"
  | MBraceMax nat "nat option"

text \<open>
  A group being read: its finished alternatives and the terms of the current
  alternative, both latest first.
\<close>

type_synonym frame = "rx list \<times> rx list"

record pstate =
  mode :: pmode
  top :: frame
  stack :: "frame list"
  lastq :: qstat

definition frame_rx :: "frame \<Rightarrow> rx" where
  "frame_rx fr = alts (rev (seqs (rev (snd fr)) # fst fr))"

definition push_atom :: "rx \<Rightarrow> pstate \<Rightarrow> pstate pres" where
  "push_atom r st =
     POk (st\<lparr>mode := MNormal, top := (fst (top st), r # snd (top st)), lastq := QAtom\<rparr>)"

definition push_assert :: "rx \<Rightarrow> pstate \<Rightarrow> pstate pres" where
  "push_assert r st =
     POk (st\<lparr>mode := MNormal, top := (fst (top st), r # snd (top st)), lastq := QNone\<rparr>)"

definition quantify :: "nat \<Rightarrow> nat option \<Rightarrow> pstate \<Rightarrow> pstate pres" where
  "quantify lo hi st =
     (case snd (top st) of
        [] \<Rightarrow> PSyntaxError
      | r # ts \<Rightarrow>
          if lastq st = QAtom
          then POk (st\<lparr>mode := MNormal, top := (fst (top st), Rep lo hi r # ts), lastq := QQuant\<rparr>)
          else PSyntaxError)"

definition open_group :: "pstate \<Rightarrow> pstate" where
  "open_group st = st\<lparr>mode := MNormal, top := ([], []), stack := top st # stack st, lastq := QNone\<rparr>"

definition close_group :: "pstate \<Rightarrow> pstate pres" where
  "close_group st =
     (case stack st of
        [] \<Rightarrow> PSyntaxError
      | fr # frs \<Rightarrow>
          POk (st\<lparr>mode := MNormal, top := (fst fr, frame_rx (top st) # snd fr), stack := frs,
                   lastq := QAtom\<rparr>))"

definition next_alt :: "pstate \<Rightarrow> pstate pres" where
  "next_alt st =
     POk (st\<lparr>mode := MNormal, top := (seqs (rev (snd (top st))) # fst (top st), []),
              lastq := QNone\<rparr>)"

definition D_ranges :: "(nat \<times> nat) list" where
  "D_ranges = [(0, 47), (58, 255)]"

definition W_ranges :: "(nat \<times> nat) list" where
  "W_ranges = [(0, 47), (58, 64), (91, 94), (96, 96), (123, 255)]"

definition S_ranges :: "(nat \<times> nat) list" where
  "S_ranges = [(0, 8), (14, 31), (33, 159), (161, 255)]"

text \<open>The characters a class escape stands for, if \<open>c\<close> is the letter of one.\<close>

definition class_escape :: "char \<Rightarrow> (nat \<times> nat) list option" where
  "class_escape c =
     (if c = CHR ''d'' then Some d_ranges else if c = CHR ''D'' then Some D_ranges
      else if c = CHR ''w'' then Some w_ranges else if c = CHR ''W'' then Some W_ranges
      else if c = CHR ''s'' then Some s_ranges else if c = CHR ''S'' then Some S_ranges
      else None)"

definition control_escape :: "char \<Rightarrow> nat option" where
  "control_escape c =
     (if c = CHR ''t'' then Some 9 else if c = CHR ''n'' then Some 10
      else if c = CHR ''v'' then Some 11 else if c = CHR ''f'' then Some 12
      else if c = CHR ''r'' then Some 13 else None)"

text \<open>Escape letters whose meaning this model does not cover.\<close>

definition unsupported_escape :: "char \<Rightarrow> bool" where
  "unsupported_escape c = (is_digit c \<or> c \<in> set ''xuckpP'')"

definition normal_step :: "pstate \<Rightarrow> char \<Rightarrow> pstate pres" where
  "normal_step st c =
     (if c = CHR ''^'' then push_assert Bol st
      else if c = CHR ''$'' then push_assert Eol st
      else if c = CHR ''.'' then push_atom Dot st
      else if c = CHR ''*'' then quantify 0 None st
      else if c = CHR ''+'' then quantify 1 None st
      else if c = CHR ''?'' then
        (if lastq st = QQuant then POk (st\<lparr>lastq := QNone\<rparr>) else quantify 0 (Some 1) st)
      else if c = CHR ''('' then POk (st\<lparr>mode := MGroupStart\<rparr>)
      else if c = CHR '')'' then close_group st
      else if c = CHR ''|'' then next_alt st
      else if c = CHR ''['' then POk (st\<lparr>mode := MClassStart\<rparr>)
      else if c = CHR ''{'' then POk (st\<lparr>mode := MBrace None\<rparr>)
      else if c = CHR 0x5C then POk (st\<lparr>mode := MEscape\<rparr>)
      else push_atom (lit c) st)"

definition escape_step :: "pstate \<Rightarrow> char \<Rightarrow> pstate pres" where
  "escape_step st c =
     (case class_escape c of
        Some rs \<Rightarrow> push_atom (Chars False rs) st
      | None \<Rightarrow>
          if c = CHR ''b'' then push_assert (WordB True) st
          else if c = CHR ''B'' then push_assert (WordB False) st
          else (case control_escape c of
                  Some n \<Rightarrow> push_atom (Chars False [(n, n)]) st
                | None \<Rightarrow> if unsupported_escape c then PUnsupported else push_atom (lit c) st))"

definition pend_ranges :: "cpend \<Rightarrow> (nat \<times> nat) list" where
  "pend_ranges p =
     (case p of PNone \<Rightarrow> [] | PChar a \<Rightarrow> [(a, a)] | PDash a \<Rightarrow> [(a, a), (45, 45)])"

text \<open>
  One more character \<open>n\<close> of a class; \<open>dash\<close> when it is an unescaped \<open>-\<close>, which after
  a single character opens a range.
\<close>

definition class_char :: "pstate \<Rightarrow> bool \<Rightarrow> (nat \<times> nat) list \<Rightarrow> cpend \<Rightarrow> nat \<Rightarrow> bool \<Rightarrow> pstate pres" where
  "class_char st neg rs p n dash =
     (case p of
        PNone \<Rightarrow> POk (st\<lparr>mode := MClass neg rs (PChar n)\<rparr>)
      | PChar a \<Rightarrow>
          if dash then POk (st\<lparr>mode := MClass neg rs (PDash a)\<rparr>)
          else POk (st\<lparr>mode := MClass neg (rs @ [(a, a)]) (PChar n)\<rparr>)
      | PDash a \<Rightarrow>
          if a \<le> n then POk (st\<lparr>mode := MClass neg (rs @ [(a, n)]) PNone\<rparr>)
          else PSyntaxError)"

definition class_step :: "pstate \<Rightarrow> bool \<Rightarrow> (nat \<times> nat) list \<Rightarrow> cpend \<Rightarrow> char \<Rightarrow> pstate pres" where
  "class_step st neg rs p c =
     (if c = CHR '']'' then push_atom (Chars neg (rs @ pend_ranges p)) st
      else if c = CHR 0x5C then POk (st\<lparr>mode := MClassEsc neg rs p\<rparr>)
      else class_char st neg rs p (of_char c) (c = CHR ''-''))"

definition class_escape_step :: "pstate \<Rightarrow> bool \<Rightarrow> (nat \<times> nat) list \<Rightarrow> cpend \<Rightarrow> char \<Rightarrow> pstate pres" where
  "class_escape_step st neg rs p c =
     (case class_escape c of
        Some cs \<Rightarrow>
          (case p of
             PDash a \<Rightarrow> PUnsupported
           | _ \<Rightarrow> POk (st\<lparr>mode := MClass neg (rs @ pend_ranges p @ cs) PNone\<rparr>))
      | None \<Rightarrow>
          if c = CHR ''b'' then class_char st neg rs p 8 False
          else (case control_escape c of
                  Some n \<Rightarrow> class_char st neg rs p n False
                | None \<Rightarrow> if unsupported_escape c then PUnsupported
                          else class_char st neg rs p (of_char c) False))"

definition brace_step :: "pstate \<Rightarrow> nat option \<Rightarrow> char \<Rightarrow> pstate pres" where
  "brace_step st d c =
     (if is_digit c
      then POk (st\<lparr>mode := MBrace (Some (10 * (case d of None \<Rightarrow> 0 | Some k \<Rightarrow> k) + digit_val c))\<rparr>)
      else (case d of
              None \<Rightarrow> PUnsupported
            | Some lo \<Rightarrow>
                if c = CHR '','' then POk (st\<lparr>mode := MBraceMax lo None\<rparr>)
                else if c = CHR ''}'' then quantify lo (Some lo) st
                else PUnsupported))"

definition brace_max_step :: "pstate \<Rightarrow> nat \<Rightarrow> nat option \<Rightarrow> char \<Rightarrow> pstate pres" where
  "brace_max_step st lo m c =
     (if is_digit c
      then POk (st\<lparr>mode := MBraceMax lo (Some (10 * (case m of None \<Rightarrow> 0 | Some k \<Rightarrow> k) + digit_val c))\<rparr>)
      else if c = CHR ''}'' then
        (case m of
           None \<Rightarrow> quantify lo None st
         | Some hi \<Rightarrow> if hi < lo then PSyntaxError else quantify lo (Some hi) st)
      else PUnsupported)"

definition pstep :: "pstate \<Rightarrow> char \<Rightarrow> pstate pres" where
  "pstep st c =
     (case mode st of
        MNormal \<Rightarrow> normal_step st c
      | MEscape \<Rightarrow> escape_step st c
      | MGroupStart \<Rightarrow>
          if c = CHR ''?'' then POk (st\<lparr>mode := MGroupQ\<rparr>) else normal_step (open_group st) c
      | MGroupQ \<Rightarrow> if c = CHR '':'' then POk (open_group st) else PUnsupported
      | MClassStart \<Rightarrow>
          if c = CHR ''^'' then POk (st\<lparr>mode := MClass True [] PNone\<rparr>)
          else class_step st False [] PNone c
      | MClass neg rs p \<Rightarrow> class_step st neg rs p c
      | MClassEsc neg rs p \<Rightarrow> class_escape_step st neg rs p c
      | MBrace d \<Rightarrow> brace_step st d c
      | MBraceMax lo m \<Rightarrow> brace_max_step st lo m c)"

fun prun :: "pstate \<Rightarrow> string \<Rightarrow> pstate pres" where
  "prun st [] = POk st"
| "prun st (c # cs) =
     (case pstep st c of
        POk st' \<Rightarrow> prun st' cs
      | PSyntaxError \<Rightarrow> PSyntaxError
      | PUnsupported \<Rightarrow> PUnsupported)"

text \<open>At the end of the pattern every group, class and escape must be complete.\<close>

definition pfinish :: "pstate \<Rightarrow> rx pres" where
  "pfinish st =
     (case mode st of
        MNormal \<Rightarrow> if stack st = [] then POk (frame_rx (top st)) else PSyntaxError
      | MBrace d \<Rightarrow> PUnsupported
      | MBraceMax lo m \<Rightarrow> PUnsupported
      | _ \<Rightarrow> PSyntaxError)"

definition pinit :: pstate where
  "pinit = \<lparr>mode = MNormal, top = ([], []), stack = [], lastq = QNone\<rparr>"

definition parse_pattern :: "string \<Rightarrow> rx pres" where
  "parse_pattern s =
     (case prun pinit s of
        POk st \<Rightarrow> pfinish st
      | PSyntaxError \<Rightarrow> PSyntaxError
      | PUnsupported \<Rightarrow> PUnsupported)"

text \<open>
  The flags: a SyntaxError for a letter that is no flag or occurs twice. The flag \<open>d\<close>
  does not change the answer of \<open>.test\<close>.
\<close>

definition parse_flags :: "string \<Rightarrow> rxflags pres" where
  "parse_flags fs =
     (if \<not> (list_all (\<lambda>c. c \<in> set ''dgimsuvy'') fs \<and> distinct fs) then PSyntaxError
      else if list_ex (\<lambda>c. c \<in> set ''gyuv'') fs then PUnsupported
      else POk \<lparr>ignoreCase = CHR ''i'' \<in> set fs, multiline = CHR ''m'' \<in> set fs,
                dotAll = CHR ''s'' \<in> set fs\<rparr>)"

datatype jserror = TypeError | SyntaxError

text \<open>
  The regular expression engine of the host, for the patterns and flags the parser does
  not read: \<open>engine pattern flags\<close> is \<open>None\<close> when \<open>new RegExp\<close> throws its SyntaxError
  and otherwise \<open>.test\<close> of the object it builds. (ECMAScript builds the object from the
  pattern and the flags alone, and \<open>.test\<close> reads nothing of it but the position.) The
  engine is a parameter: what is proved of \<open>new RegExp\<close> and of the checks that call it is
  proved for every engine.
\<close>

type_synonym engine = "string \<Rightarrow> string \<Rightarrow> rexec option"

definition native :: "engine \<Rightarrow> string \<Rightarrow> string \<Rightarrow> jserror + rexec" where
  "native eng ps fs = (case eng ps fs of None \<Rightarrow> Inl SyntaxError | Some ex \<Rightarrow> Inr ex)"

text \<open>
  \<open>new RegExp(p, f)\<close>: an \<open>undefined\<close> pattern is the empty pattern and \<open>undefined\<close> flags
  are no flags. The flags are checked first.
\<close>

definition RegExp_new :: "engine \<Rightarrow> string option \<Rightarrow> string option \<Rightarrow> jserror + rexec" where
  "RegExp_new eng p f =
     (let ps = (case p of None \<Rightarrow> [] | Some x \<Rightarrow> x);
          fs = (case f of None \<Rightarrow> [] | Some x \<Rightarrow> x)
      in case parse_flags fs of
           PSyntaxError \<Rightarrow> Inl SyntaxError
         | PUnsupported \<Rightarrow> native eng ps fs
         | POk fl \<Rightarrow>
             (case parse_pattern ps of
                PSyntaxError \<Rightarrow> Inl SyntaxError
              | PUnsupported \<Rightarrow> native eng ps fs
              | POk r \<Rightarrow> Inr (exec_of \<lparr>body = r, flags = fl\<rparr>)))"

text \<open>\<open>s.split(d)\<close> for a one-character separator: at least one piece.\<close>

fun split1 :: "char \<Rightarrow> string \<Rightarrow> string \<times> string list" where
  "split1 d [] = ([], [])"
| "split1 d (c # cs) =
     (let (h, t) = split1 d cs in if c = d then ([], h # t) else (c # h, t))"

definition split :: "char \<Rightarrow> string \<Rightarrow> string list" where
  "split d s = (let (h, t) = split1 d s in h # t)"

text \<open>\<open>parts[i]\<close>: \<open>undefined\<close> beyond the end of the array.\<close>

definition part :: "string list \<Rightarrow> nat \<Rightarrow> string option" where
  "part ps i = (if i < length ps then Some (ps ! i) else None)"

section \<open>The validator\<close>

subsection \<open>The regular expression literals of checkDataType\<close>

text \<open>
  Each literal is written as its syntax tree: \<open>group [[a, b], [c]]\<close> is the group
  \<open>(ab|c)\<close>, and the whole pattern is a group as well.
\<close>

definition group :: "rx list list \<Rightarrow> rx" where
  "group as = alts (map seqs as)"

definition literal :: "rx list list \<Rightarrow> regexp" where
  "literal as = \<lparr>body = group as, flags = no_flags\<rparr>"

text \<open>\<^verbatim>\<open>/^\s*(\d+)\s*$/\<close>\<close>

definition regex_INT :: regexp where
  "regex_INT = literal [[Bol, many rx_s, group [[many1 rx_d]], many rx_s, Eol]]"

text \<open>\<^verbatim>\<open>/^\-?\d+(\.\d*)?$/\<close>\<close>

definition regex_REAL :: regexp where
  "regex_REAL =
     literal [[Bol, opt (lit CHR ''-''), many1 rx_d, opt (group [[lit CHR ''.'', many rx_d]]), Eol]]"

text \<open>
  \<^verbatim>\<open>/(((^\s*(\d\d){0,1}\s*(-?|\.)\s*(\(?\d\d\d\)?\s*(-?|\.?)){0,1}\s*\d\d\d\s*(-?|\.?)\s*\d{4}\b)|(^\s*\+\(?(\d{1,4}\)?(-?|\.?))(\s*\(?\d{2,}\)?\s*(-?|\.?)\s*\d{2,}\s*(-?|\.?)(\s*\d*\s*(-|\.?)){0,3})))(\s*(x|ext|X)\s*\d+){0,1}$)/\<close>
\<close>

definition dash_or_dot :: rx where
  "dash_or_dot = group [[opt (lit CHR ''-'')], [opt (lit CHR ''.'')]]"

definition phone_us :: rx where
  "phone_us =
     group [[Bol, many rx_s, Rep 0 (Some 1) (group [[rx_d, rx_d]]), many rx_s,
             group [[opt (lit CHR ''-'')], [lit CHR ''.'']], many rx_s,
             Rep 0 (Some 1)
               (group [[opt (lit CHR ''(''), rx_d, rx_d, rx_d, opt (lit CHR '')''), many rx_s,
                        dash_or_dot]]),
             many rx_s, rx_d, rx_d, rx_d, many rx_s, dash_or_dot, many rx_s,
             Rep 4 (Some 4) rx_d, WordB True]]"

definition phone_intl :: rx where
  "phone_intl =
     group [[Bol, many rx_s, lit CHR ''+'', opt (lit CHR ''(''),
             group [[Rep 1 (Some 4) rx_d, opt (lit CHR '')''), dash_or_dot]],
             group [[many rx_s, opt (lit CHR ''(''), Rep 2 None rx_d, opt (lit CHR '')''),
                     many rx_s, dash_or_dot, many rx_s, Rep 2 None rx_d, many rx_s, dash_or_dot,
                     Rep 0 (Some 3)
                       (group [[many rx_s, many rx_d, many rx_s,
                                group [[lit CHR ''-''], [opt (lit CHR ''.'')]]]])]]]]"

definition regex_PHONE :: regexp where
  "regex_PHONE =
     literal [[group [[group [[phone_us], [phone_intl]],
                       Rep 0 (Some 1)
                         (group [[many rx_s,
                                  group [[lit CHR ''x''], [lit CHR ''e'', lit CHR ''x'', lit CHR ''t''],
                                         [lit CHR ''X'']],
                                  many rx_s, many1 rx_d]]),
                       Eol]]]]"

text \<open>\<^verbatim>\<open>/^\s*((\w+)(\.\w+)*)@((\w+)(\.\w+)+)$/\<close>\<close>

definition regex_EMAIL :: regexp where
  "regex_EMAIL =
     literal [[Bol, many rx_s,
               group [[group [[many1 rx_w]], many (group [[lit CHR ''.'', many1 rx_w]])]],
               lit CHR ''@'',
               group [[group [[many1 rx_w]], many1 (group [[lit CHR ''.'', many1 rx_w]])]],
               Eol]]"

text \<open>\<^verbatim>\<open>/^(https?:\/\/)?([\da-z\.-]+)\.([a-z\.]{2,6})([\/\w \.-]*)*\/?$/\<close>\<close>

definition regex_URL :: regexp where
  "regex_URL =
     literal [[Bol,
               opt (group [[lit CHR ''h'', lit CHR ''t'', lit CHR ''t'', lit CHR ''p'',
                            opt (lit CHR ''s''), lit CHR '':'', lit CHR ''/'', lit CHR ''/'']]),
               group [[many1 (Chars False (d_ranges @ [rng CHR ''a'' CHR ''z'', single CHR ''.'',
                                                        single CHR ''-'']))]],
               lit CHR ''.'',
               group [[Rep 2 (Some 6) (Chars False [rng CHR ''a'' CHR ''z'', single CHR ''.''])]],
               many (group [[many (Chars False ([single CHR ''/''] @ w_ranges @
                                                 [single CHR '' '', single CHR ''.'',
                                                  single CHR ''-'']))]]),
               opt (lit CHR ''/''), Eol]]"

text \<open>
  \<^verbatim>\<open>/^\s*(((\d|[0-1]\d|2[0-4]):([0-5]\d))|(\d|0\d|1[0-2]):([0-5]\d)\s*([aApP][mM]))\s*$/\<close>
\<close>

definition tm_minutes :: rx where
  "tm_minutes = group [[Chars False [rng CHR ''0'' CHR ''5''], rx_d]]"

definition tm_hour24 :: rx where
  "tm_hour24 =
     group [[rx_d], [Chars False [rng CHR ''0'' CHR ''1''], rx_d],
            [lit CHR ''2'', Chars False [rng CHR ''0'' CHR ''4'']]]"

definition tm_hour12 :: rx where
  "tm_hour12 =
     group [[rx_d], [lit CHR ''0'', rx_d], [lit CHR ''1'', Chars False [rng CHR ''0'' CHR ''2'']]]"

definition tm_ampm :: rx where
  "tm_ampm =
     group [[Chars False [single CHR ''a'', single CHR ''A'', single CHR ''p'', single CHR ''P''],
             Chars False [single CHR ''m'', single CHR ''M'']]]"

definition tm_24 :: rx where
  "tm_24 = group [[tm_hour24, lit CHR '':'', tm_minutes]]"

definition tm_12 :: "rx list" where
  "tm_12 = [tm_hour12, lit CHR '':'', tm_minutes, many rx_s, tm_ampm]"

definition regex_TM :: regexp where
  "regex_TM = literal [[Bol, many rx_s, group [[tm_24], tm_12], many rx_s, Eol]]"

text \<open>\<^verbatim>\<open>/^\d{1,4}$/\<close>\<close>

definition regex_YEAR :: regexp where
  "regex_YEAR = literal [[Bol, Rep 1 (Some 4) rx_d, Eol]]"

text \<open>\<^verbatim>\<open>/^(0?[1-9]|1[012])$/\<close>\<close>

definition regex_MONTH :: regexp where
  "regex_MONTH =
     literal [[Bol,
               group [[opt (lit CHR ''0''), Chars False [rng CHR ''1'' CHR ''9'']],
                      [lit CHR ''1'',
                       Chars False [single CHR ''0'', single CHR ''1'', single CHR ''2'']]],
               Eol]]"

text \<open>\<^verbatim>\<open>/^(0?[1-9]|[12]\d|3[01])$/\<close>\<close>

definition regex_DAY :: regexp where
  "regex_DAY =
     literal [[Bol,
               group [[opt (lit CHR ''0''), Chars False [rng CHR ''1'' CHR ''9'']],
                      [Chars False [single CHR ''1'', single CHR ''2''], rx_d],
                      [lit CHR ''3'', Chars False [single CHR ''0'', single CHR ''1'']]],
               Eol]]"

text \<open>
  \<open>regex.test(value)\<close> converts its argument to a string. \<open>test\<close> is the test against a
  literal; \<open>test_new\<close> is the test of an object that \<open>new RegExp\<close> has just built, whose
  position is 0.
\<close>

definition test :: "regexp \<Rightarrow> jsval \<Rightarrow> bool" where
  "test re value = rx_test re (ToString value)"

definition test_new :: "rexec \<Rightarrow> jsval \<Rightarrow> bool" where
  "test_new regex value = fst (regex 0 (ToString value))"

subsection \<open>checkRequired\<close>

text \<open>
  The functions push onto the caller's error array. The array is passed in and handed
  back: a result is the value returned together with the array after the call.

  \<open>angular.isObject\<close> holds of objects and arrays, \<open>angular.isArray\<close> of arrays. An array
  has no \<open>text\<close> property.
\<close>

definition isObject :: "jsval \<Rightarrow> bool" where
  "isObject value = (case value of JObj t \<Rightarrow> True | JArr xs \<Rightarrow> True | _ \<Rightarrow> False)"

definition isArray :: "jsval \<Rightarrow> bool" where
  "isArray value = (case value of JArr xs \<Rightarrow> True | _ \<Rightarrow> False)"

definition get_text :: "jsval \<Rightarrow> jsval" where
  "get_text value = (case value of JObj (Some t) \<Rightarrow> t | _ \<Rightarrow> JUndefined)"

definition checkRequired :: "bool \<Rightarrow> jsval \<Rightarrow> jsval list \<Rightarrow> bool \<times> jsval list" where
  "checkRequired required value errors =
     (if required \<and>
         (value = JUndefined \<or> value = JNull \<or> value = JStr [] \<or>
          (isObject value \<and> get_text value = JStr []) \<or>
          (isArray value \<and> js_length value = Some 0))
      then (False, errors @ [JStr ''requires a value''])
      else (True, errors))"

subsection \<open>checkDataType\<close>

definition errorMessages :: "(string \<times> string) list" where
  "errorMessages =
     [(''BL'', ''must be a boolean (true/false).''),
      (''INT'', ''must be an integer number.''),
      (''REAL'', ''must be a decimal number.''),
      (''ST'', ''must be a string value.''),
      (''TX'', ''must be a text value.''),
      (''BIN'', ''must be a binary value.''),
      (''DT'', ''must be a date value.''),
      (''DTM'', ''must be a date and time value.''),
      (''TM'', ''must be a time value.''),
      (''CNE'', ''must be a value from the answer list.''),
      (''CWE'', ''must be a value from the answer list or a user supplied value.''),
      (''RTO'', ''must be a ratio value.''),
      (''QTY'', ''must be a quantity value.''),
      (''YEAR'', ''must be a numeric value of year.''),
      (''MONTH'', ''must be a numeric value of month.''),
      (''DAY'', ''must be a numeric value of day.''),
      (''URL'', ''must be a valid URL.''),
      (''EMAIL'', ''must be a valid email address.''),
      (''PHONE'', ''must be a valid phone number.'')]"

text \<open>\<open>this._errorMessages[dataType]\<close>: \<open>undefined\<close> for a key the table does not have.\<close>

definition errorMessage :: "string \<Rightarrow> jsval" where
  "errorMessage dataType =
     (case map_of errorMessages dataType of None \<Rightarrow> JUndefined | Some m \<Rightarrow> JStr m)"

text \<open>The \<open>switch\<close> of checkDataType: the value of \<open>valid\<close> after it.\<close>

definition dataType_valid :: "string \<Rightarrow> jsval \<Rightarrow> bool" where
  "dataType_valid dataType value =
     (if dataType = ''BL'' then \<not> (value \<noteq> JBool True \<and> value \<noteq> JBool False)
      else if dataType = ''INT'' then test regex_INT value
      else if dataType = ''REAL'' then test regex_REAL value
      else if dataType = ''PHONE'' then test regex_PHONE value
      else if dataType = ''EMAIL'' then test regex_EMAIL value
      else if dataType = ''URL'' then test regex_URL value
      else if dataType = ''TM'' then test regex_TM value
      else if dataType = ''YEAR'' then test regex_YEAR value
      else if dataType = ''MONTH'' then test regex_MONTH value
      else if dataType = ''DAY'' then test regex_DAY value
      else True)"

text \<open>
  The error array of the model is an array, so the guard \<open>angular.isArray(errors)\<close>
  before the push holds.
\<close>

definition checkDataType :: "string \<Rightarrow> jsval \<Rightarrow> jsval list \<Rightarrow> bool \<times> jsval list" where
  "checkDataType dataType value errors =
     (let valid = (if value \<noteq> JUndefined \<and> value \<noteq> JNull \<and> value \<noteq> JStr []
                   then dataType_valid dataType value else True)
      in if \<not> valid then (valid, errors @ [errorMessage dataType]) else (valid, errors))"

subsection \<open>checkRestrictions\<close>

text \<open>
  The restrictions are an object: its keys in the order \<open>for (key in restrictions)\<close>
  visits them, each with its value. \<open>restrictions[key]\<close> looks a key up.

  One round of the loop either completes with the value of \<open>valid\<close> or throws; both
  come with the error array as the round leaves it.
\<close>

type_synonym restrictions = "(string \<times> jsval) list"

definition lookup :: "restrictions \<Rightarrow> string \<Rightarrow> jsval" where
  "lookup restrictions key = (case map_of restrictions key of None \<Rightarrow> JUndefined | Some x \<Rightarrow> x)"

definition message :: "string \<Rightarrow> jsval \<Rightarrow> jsval" where
  "message prefix keyValue = JStr (prefix @ ToString keyValue @ ''.'')"

definition verdict :: "bool \<Rightarrow> jsval \<Rightarrow> jsval list \<Rightarrow> (jserror + bool) \<times> jsval list" where
  "verdict ok msg errors = (if ok then (Inr True, errors) else (Inr False, errors @ [msg]))"

text \<open>
  The \<open>pattern\<close> case: \<open>keyValue.split("/")\<close> is a TypeError unless \<open>keyValue\<close> is a
  string; \<open>new RegExp(parts[1], parts[2])\<close> may throw.
\<close>

definition check_pattern :: "engine \<Rightarrow> jsval \<Rightarrow> jsval \<Rightarrow> jsval list \<Rightarrow> (jserror + bool) \<times> jsval list" where
  "check_pattern eng keyValue value errors =
     (case keyValue of
        JStr kv \<Rightarrow>
          (let parts = split CHR ''/'' kv
           in case RegExp_new eng (part parts 1) (part parts 2) of
                Inl e \<Rightarrow> (Inl e, errors)
              | Inr regex \<Rightarrow>
                  verdict (test_new regex value)
                    (message ''must match a RegExp pattern of '' keyValue) errors)
      | _ \<Rightarrow> (Inl TypeError, errors))"

definition check_key ::
  "engine \<Rightarrow> restrictions \<Rightarrow> string \<Rightarrow> jsval \<Rightarrow> jsval list \<Rightarrow> (jserror + bool) \<times> jsval list" where
  "check_key eng restrictions key value errors =
     (let keyValue = lookup restrictions key in
      if key = ''minExclusive'' then
        verdict (num_gt (parseFloat value) (parseFloat keyValue))
          (message ''must be a value greater than '' keyValue) errors
      else if key = ''minInclusive'' then
        verdict (num_ge (parseFloat value) (parseFloat keyValue))
          (message ''must be a value greater than or equal to '' keyValue) errors
      else if key = ''maxExclusive'' then
        verdict (num_lt (parseFloat value) (parseFloat keyValue))
          (message ''must be a value less than '' keyValue) errors
      else if key = ''maxInclusive'' then
        verdict (num_le (parseFloat value) (parseFloat keyValue))
          (message ''must be a value less than or equal to '' keyValue) errors
      else if key = ''totalDigits'' then (Inr True, errors)
      else if key = ''fractionDigits'' then (Inr True, errors)
      else if key = ''length'' then
        verdict (len_eq (js_length value) (parseInt keyValue))
          (message ''must have a total length of '' keyValue) errors
      else if key = ''maxLength'' then
        verdict (len_le (js_length value) (parseInt keyValue))
          (message ''must have a total length less than or equal to '' keyValue) errors
      else if key = ''minLength'' then
        verdict (len_ge (js_length value) (parseInt keyValue))
          (message ''must have a total length greater than or equal to '' keyValue) errors
      else if key = ''pattern'' then check_pattern eng keyValue value errors
      else (Inr True, errors))"

text \<open>The loop over the keys, with \<open>allValid\<close> and the error array as its state.\<close>

fun restrictions_loop ::
  "engine \<Rightarrow> restrictions \<Rightarrow> string list \<Rightarrow> jsval \<Rightarrow> bool \<Rightarrow> jsval list \<Rightarrow>
     (jserror + bool) \<times> jsval list" where
  "restrictions_loop eng restrictions [] value allValid errors = (Inr allValid, errors)"
| "restrictions_loop eng restrictions (key # keys) value allValid errors =
     (case check_key eng restrictions key value errors of
        (Inl e, errors') \<Rightarrow> (Inl e, errors')
      | (Inr valid, errors') \<Rightarrow>
          restrictions_loop eng restrictions keys value (allValid \<and> valid) errors')"

definition checkRestrictions ::
  "engine \<Rightarrow> restrictions \<Rightarrow> jsval \<Rightarrow> jsval list \<Rightarrow> (jserror + bool) \<times> jsval list" where
  "checkRestrictions eng restrictions value errors =
     (if value \<noteq> JUndefined \<and> value \<noteq> JNull \<and> value \<noteq> JStr []
      then restrictions_loop eng restrictions (map fst restrictions) value True errors
      else (Inr True, errors))"

section \<open>The validator on the state of the page\<close>

text \<open>
  What outlives a call of the validator: the table \<^verbatim>\<open>LForms.Validations._errorMessages\<close>,
  which checkDataType reads through \<open>this\<close>, and the regular expression objects, each with
  its position \<open>lastIndex\<close>. The functions of this section are the three checks once
  more, as operations on that state: they take the store and hand it back. Evaluating a
  regular expression literal and calling \<open>new RegExp\<close> each add a new object to the
  store; \<open>.test\<close> reads the position of its object and writes it.
\<close>

record robject =
  exec :: rexec
  lastIndex :: nat

record store =
  table :: "(string \<times> string) list"
  regexps :: "robject list"

text \<open>A new object: its reference is its index in the store, its position is 0.\<close>

definition create :: "rexec \<Rightarrow> store \<Rightarrow> nat \<times> store" where
  "create ex st =
     (length (regexps st), st\<lparr>regexps := regexps st @ [\<lparr>exec = ex, lastIndex = 0\<rparr>]\<rparr>)"

text \<open>
  \<open>regex.test(value)\<close> on the object with the reference \<open>r\<close>. A reference is a result of
  \<open>create\<close> and names an object of the store; for any other number the store is left as
  it is.
\<close>

definition test_at :: "nat \<Rightarrow> jsval \<Rightarrow> store \<Rightarrow> bool \<times> store" where
  "test_at r value st =
     (if r < length (regexps st) then
        (let ob = regexps st ! r;
             (found, i) = exec ob (lastIndex ob) (ToString value)
         in (found, st\<lparr>regexps := (regexps st)[r := ob\<lparr>lastIndex := i\<rparr>]\<rparr>))
      else (False, st))"

text \<open>
  \<open>var regex = /.../; valid = regex.test(value);\<close> A literal builds a new object each
  time it is evaluated.
\<close>

definition literal_test :: "regexp \<Rightarrow> jsval \<Rightarrow> store \<Rightarrow> bool \<times> store" where
  "literal_test re value st =
     (let (regex, st1) = create (exec_of re) st in test_at regex value st1)"

definition checkRequired_st ::
  "bool \<Rightarrow> jsval \<Rightarrow> jsval list \<Rightarrow> store \<Rightarrow> (bool \<times> jsval list) \<times> store" where
  "checkRequired_st required value errors st =
     (if required \<and>
         (value = JUndefined \<or> value = JNull \<or> value = JStr [] \<or>
          (isObject value \<and> get_text value = JStr []) \<or>
          (isArray value \<and> js_length value = Some 0))
      then ((False, errors @ [JStr ''requires a value'']), st)
      else ((True, errors), st))"

definition dataType_valid_st :: "string \<Rightarrow> jsval \<Rightarrow> store \<Rightarrow> bool \<times> store" where
  "dataType_valid_st dataType value st =
     (if dataType = ''BL'' then (\<not> (value \<noteq> JBool True \<and> value \<noteq> JBool False), st)
      else if dataType = ''INT'' then literal_test regex_INT value st
      else if dataType = ''REAL'' then literal_test regex_REAL value st
      else if dataType = ''PHONE'' then literal_test regex_PHONE value st
      else if dataType = ''EMAIL'' then literal_test regex_EMAIL value st
      else if dataType = ''URL'' then literal_test regex_URL value st
      else if dataType = ''TM'' then literal_test regex_TM value st
      else if dataType = ''YEAR'' then literal_test regex_YEAR value st
      else if dataType = ''MONTH'' then literal_test regex_MONTH value st
      else if dataType = ''DAY'' then literal_test regex_DAY value st
      else (True, st))"

text \<open>\<open>this._errorMessages[dataType]\<close>, read from the store.\<close>

definition errorMessage_st :: "store \<Rightarrow> string \<Rightarrow> jsval" where
  "errorMessage_st st dataType =
     (case map_of (table st) dataType of None \<Rightarrow> JUndefined | Some m \<Rightarrow> JStr m)"

definition checkDataType_st ::
  "string \<Rightarrow> jsval \<Rightarrow> jsval list \<Rightarrow> store \<Rightarrow> (bool \<times> jsval list) \<times> store" where
  "checkDataType_st dataType value errors st =
     (let (valid, st1) = (if value \<noteq> JUndefined \<and> value \<noteq> JNull \<and> value \<noteq> JStr []
                          then dataType_valid_st dataType value st else (True, st))
      in if \<not> valid then ((valid, errors @ [errorMessage_st st1 dataType]), st1)
         else ((valid, errors), st1))"

definition check_pattern_st ::
  "engine \<Rightarrow> jsval \<Rightarrow> jsval \<Rightarrow> jsval list \<Rightarrow> store \<Rightarrow> ((jserror + bool) \<times> jsval list) \<times> store" where
  "check_pattern_st eng keyValue value errors st =
     (case keyValue of
        JStr kv \<Rightarrow>
          (let parts = split CHR ''/'' kv
           in case RegExp_new eng (part parts 1) (part parts 2) of
                Inl e \<Rightarrow> ((Inl e, errors), st)
              | Inr ex \<Rightarrow>
                  (let (regex, st1) = create ex st;
                       (found, st2) = test_at regex value st1
                   in (verdict found (message ''must match a RegExp pattern of '' keyValue) errors,
                       st2)))
      | _ \<Rightarrow> ((Inl TypeError, errors), st))"

text \<open>
  The cases of the \<open>switch\<close> other than \<open>pattern\<close> build no object and read no table:
  they are the cases of \<open>check_key\<close>.
\<close>

definition check_key_st ::
  "engine \<Rightarrow> restrictions \<Rightarrow> string \<Rightarrow> jsval \<Rightarrow> jsval list \<Rightarrow> store \<Rightarrow>
     ((jserror + bool) \<times> jsval list) \<times> store" where
  "check_key_st eng restrictions key value errors st =
     (if key = ''pattern''
      then check_pattern_st eng (lookup restrictions key) value errors st
      else (check_key eng restrictions key value errors, st))"

fun restrictions_loop_st ::
  "engine \<Rightarrow> restrictions \<Rightarrow> string list \<Rightarrow> jsval \<Rightarrow> bool \<Rightarrow> jsval list \<Rightarrow> store \<Rightarrow>
     ((jserror + bool) \<times> jsval list) \<times> store" where
  "restrictions_loop_st eng restrictions [] value allValid errors st =
     ((Inr allValid, errors), st)"
| "restrictions_loop_st eng restrictions (key # keys) value allValid errors st =
     (case check_key_st eng restrictions key value errors st of
        ((Inl e, errors'), st') \<Rightarrow> ((Inl e, errors'), st')
      | ((Inr valid, errors'), st') \<Rightarrow>
          restrictions_loop_st eng restrictions keys value (allValid \<and> valid) errors' st')"

definition checkRestrictions_st ::
  "engine \<Rightarrow> restrictions \<Rightarrow> jsval \<Rightarrow> jsval list \<Rightarrow> store \<Rightarrow>
     ((jserror + bool) \<times> jsval list) \<times> store" where
  "checkRestrictions_st eng restrictions value errors st =
     (if value \<noteq> JUndefined \<and> value \<noteq> JNull \<and> value \<noteq> JStr []
      then restrictions_loop_st eng restrictions (map fst restrictions) value True errors st
      else ((Inr True, errors), st))"

text \<open>The store once the script is loaded, and a store with more objects.\<close>

definition loaded :: store where
  "loaded = \<lparr>table = errorMessages, regexps = []\<rparr>"

definition grown :: "robject list \<Rightarrow> store \<Rightarrow> store" where
  "grown obs st = st\<lparr>regexps := regexps st @ obs\<rparr>"

section \<open>Notions the properties are stated with\<close>

text \<open>A value that is neither \<open>undefined\<close>, \<open>null\<close> nor the empty string.\<close>

definition nonempty :: "jsval \<Rightarrow> bool" where
  "nonempty value = (value \<noteq> JUndefined \<and> value \<noteq> JNull \<and> value \<noteq> JStr [])"

text \<open>The keys the \<open>switch\<close> of checkRestrictions has a case for.\<close>

definition switch_keys :: "string list" where
  "switch_keys =
     [''minExclusive'', ''minInclusive'', ''maxExclusive'', ''maxInclusive'', ''totalDigits'',
      ''fractionDigits'', ''length'', ''maxLength'', ''minLength'', ''pattern'']"

text \<open>
  The check of one key on its own, started on an empty error array: whether it passes,
  fails or throws, and the messages it pushes.
\<close>

definition key_passes :: "engine \<Rightarrow> restrictions \<Rightarrow> jsval \<Rightarrow> string \<Rightarrow> bool" where
  "key_passes eng rs value key = (fst (check_key eng rs key value []) = Inr True)"

definition key_fails :: "engine \<Rightarrow> restrictions \<Rightarrow> jsval \<Rightarrow> string \<Rightarrow> bool" where
  "key_fails eng rs value key = (fst (check_key eng rs key value []) = Inr False)"

definition key_throws :: "engine \<Rightarrow> restrictions \<Rightarrow> jsval \<Rightarrow> string \<Rightarrow> bool" where
  "key_throws eng rs value key =
     (case fst (check_key eng rs key value []) of Inl e \<Rightarrow> True | Inr b \<Rightarrow> False)"

definition key_messages :: "engine \<Rightarrow> restrictions \<Rightarrow> jsval \<Rightarrow> string \<Rightarrow> jsval list" where
  "key_messages eng rs value key = snd (check_key eng rs key value [])"

text \<open>
  The keys a call of checkRestrictions checks to the end: none for an empty value,
  otherwise the keys before the first one that throws, which are all keys when none
  throws.
\<close>

definition checked_keys :: "engine \<Rightarrow> restrictions \<Rightarrow> jsval \<Rightarrow> string list" where
  "checked_keys eng rs value =
     (if nonempty value then takeWhile (\<lambda>key. \<not> key_throws eng rs value key) (map fst rs)
      else [])"

text \<open>The data types whose case in the \<open>switch\<close> of checkDataType has a rule.\<close>

definition ruled_types :: "string list" where
  "ruled_types =
     [''BL'', ''INT'', ''REAL'', ''PHONE'', ''EMAIL'', ''URL'', ''TM'', ''YEAR'', ''MONTH'', ''DAY'']"

text \<open>
  The example of the specification: \<^verbatim>\<open>{minInclusive: "5", maxInclusive: "10"}\<close>.
\<close>

definition example_range :: restrictions where
  "example_range = [(''minInclusive'', JStr ''5''), (''maxInclusive'', JStr ''10'')]"

text \<open>The four numeric restrictions and the text their messages start with.\<close>

definition numeric_keys :: "string list" where
  "numeric_keys = [''minExclusive'', ''minInclusive'', ''maxExclusive'', ''maxInclusive'']"

definition numeric_text :: "string \<Rightarrow> string" where
  "numeric_text key =
     (if key = ''minExclusive'' then ''must be a value greater than ''
      else if key = ''minInclusive'' then ''must be a value greater than or equal to ''
      else if key = ''maxExclusive'' then ''must be a value less than ''
      else ''must be a value less than or equal to '')"

text \<open>
  A string has a numeric prefix when, after leading white space and a sign, it goes on
  with \<open>Infinity\<close>, a digit, or a point and a digit.
\<close>

definition numeric_prefix :: "string \<Rightarrow> bool" where
  "numeric_prefix s =
     (let (neg, u) = take_sign (dropWhile is_space s)
      in take 8 u = ''Infinity'' \<or>
         (case u of
            [] \<Rightarrow> False
          | c # cs \<Rightarrow> is_digit c \<or>
                     (c = CHR ''.'' \<and> (case cs of [] \<Rightarrow> False | d # ds \<Rightarrow> is_digit d))))"

text \<open>
  Restrictions whose pattern makes \<open>new RegExp\<close> throw (a group that is not closed, a
  letter that is no flag) or is not a string at all.
\<close>

definition bad_group :: restrictions where
  "bad_group = [(''pattern'', JStr ''/^([0-9]+/''), (''minInclusive'', JStr ''5'')]"

definition bad_flag :: restrictions where
  "bad_flag = [(''pattern'', JStr ''/^[a-z]+$/x'')]"

definition not_a_string :: restrictions where
  "not_a_string = [(''pattern'', JNum 5)]"

text \<open>
  An engine for the examples. Of what the parser leaves to an engine it reads two
  expressions: \<^verbatim>\<open>/^(?=a)a$/\<close>, which matches the string \<open>a\<close> alone, and \<^verbatim>\<open>/a/g\<close>, which
  finds the next \<open>a\<close> from the position of the object on and leaves the position behind
  it, or at 0 when there is none. Everything else it rejects.
\<close>

definition find_a :: rexec where
  "find_a i s =
     (let r = drop i s
      in if CHR ''a'' \<in> set r then (True, i + length (takeWhile (\<lambda>c. c \<noteq> CHR ''a'') r) + 1)
         else (False, 0))"

definition sample_engine :: engine where
  "sample_engine ps fs =
     (if ps = ''^(?=a)a$'' \<and> fs = [] then Some (\<lambda>i s. (s = ''a'', i))
      else if ps = ''a'' \<and> fs = ''g'' then Some find_a
      else None)"

text \<open>
  Restrictions for the examples: a pattern with a look-ahead, which the parser leaves to
  the engine; a class that is not closed and a quantifier with nothing to repeat, for
  which \<open>new RegExp\<close> throws; a pattern with the flag \<open>g\<close>.
\<close>

definition look_ahead :: restrictions where
  "look_ahead = [(''pattern'', JStr ''/^(?=a)a$/''), (''minLength'', JStr ''5'')]"

definition open_class :: restrictions where
  "open_class = [(''pattern'', JStr ''/[a-z/''), (''maxLength'', JStr ''2'')]"

definition glob_pattern :: restrictions where
  "glob_pattern =
     [(''minLength'', JStr ''5''), (''pattern'', JStr ''/*.txt/''), (''maxLength'', JStr ''2'')]"

definition global_a :: restrictions where
  "global_a = [(''pattern'', JStr ''/a/g'')]"

text \<open>A store in which an object of \<^verbatim>\<open>/a/g\<close> is left over at the position 1.\<close>

definition used :: store where
  "used = \<lparr>table = errorMessages, regexps = [\<lparr>exec = find_a, lastIndex = 1\<rparr>]\<rparr>"

text \<open>
  The pattern \<^verbatim>\<open>/^[0-9]+\/[0-9]+$/\<close>, which holds an escaped slash, in the string form
  of the restrictions.
\<close>

definition ratio_pattern :: string where
  "ratio_pattern = ''/^[0-9]+'' @ [CHR 0x5C] @ ''/[0-9]+$/''"

text \<open>
  The language of a regular expression without assertions, for the correctness of the
  matcher: \<open>conc\<close> concatenates two languages and \<open>lpow L i\<close> is \<open>i\<close> words of \<open>L\<close> in
  a row.
\<close>

definition conc :: "string set \<Rightarrow> string set \<Rightarrow> string set" where
  "conc A B = {u @ v | u v. u \<in> A \<and> v \<in> B}"

primrec lpow :: "string set \<Rightarrow> nat \<Rightarrow> string set" where
  "lpow L 0 = {[]}"
| "lpow L (Suc i) = conc L (lpow L i)"

primrec lang :: "rxflags \<Rightarrow> rx \<Rightarrow> string set" where
  "lang f Eps = {[]}"
| "lang f (Chars neg rs) = {[c] | c. chars_match (ignoreCase f) neg rs c}"
| "lang f Dot = {[c] | c. dotAll f \<or> \<not> is_line_term c}"
| "lang f (Seq a b) = conc (lang f a) (lang f b)"
| "lang f (Alt a b) = lang f a \<union> lang f b"
| "lang f (Rep lo hi r) =
     (\<Union>i \<in> {i. lo \<le> i \<and> (case hi of None \<Rightarrow> True | Some h \<Rightarrow> i \<le> max lo h)}. lpow (lang f r) i)"
| "lang f Bol = {}"
| "lang f Eol = {}"
| "lang f (WordB b) = {}"

primrec plain :: "rx \<Rightarrow> bool" where
  "plain Eps = True"
| "plain (Chars neg rs) = True"
| "plain Dot = True"
| "plain (Seq a b) = (plain a \<and> plain b)"
| "plain (Alt a b) = (plain a \<and> plain b)"
| "plain (Rep lo hi r) = plain r"
| "plain Bol = False"
| "plain Eol = False"
| "plain (WordB b) = False"

text \<open>
  The matcher states after a word of \<open>L\<close> has been read from a state of \<open>K\<close>; \<open>adv p w\<close>
  is the character before the position once \<open>w\<close> is read.
\<close>

definition adv :: "char option \<Rightarrow> string \<Rightarrow> char option" where
  "adv p w = (if w = [] then p else Some (last w))"

definition after :: "string set \<Rightarrow> cfg set \<Rightarrow> cfg set" where
  "after L K = {(adv p w, cs) | p w cs. (p, w @ cs) \<in> K \<and> w \<in> L}"

definition bounded :: "nat \<Rightarrow> cfg set \<Rightarrow> bool" where
  "bounded n K = (\<forall>k \<in> K. length (snd k) \<le> n)"

text \<open>
  Times in the forms the specification names: a 24-hour form \<open>H:MM\<close> or \<open>HH:MM\<close>, or a
  12-hour form with \<open>am\<close> or \<open>pm\<close> behind it, with white space around. The forms are
  taken as wide as the pattern of checkDataType has them: an hour is one or two digits
  and at most 24, respectively 12; the minutes are two digits and at most 59; \<open>am\<close> and
  \<open>pm\<close> are in either case, with or without white space before them.
\<close>

definition hour_upto :: "nat \<Rightarrow> string \<Rightarrow> bool" where
  "hour_upto mx h = ((length h = 1 \<or> length h = 2) \<and> list_all is_digit h \<and> dec_val h \<le> mx)"

definition minutes :: "string \<Rightarrow> bool" where
  "minutes m = (length m = 2 \<and> list_all is_digit m \<and> dec_val m \<le> 59)"

definition clock :: "nat \<Rightarrow> string \<Rightarrow> bool" where
  "clock mx t =
     (let h = takeWhile (\<lambda>c. c \<noteq> CHR '':'') t; r = dropWhile (\<lambda>c. c \<noteq> CHR '':'') t
      in r \<noteq> [] \<and> hour_upto mx h \<and> minutes (tl r))"

definition am_pm :: "string \<Rightarrow> bool" where
  "am_pm x = (x \<in> set [''am'', ''aM'', ''Am'', ''AM'', ''pm'', ''pM'', ''Pm'', ''PM''])"

definition rstrip :: "string \<Rightarrow> string" where
  "rstrip s = rev (dropWhile is_space (rev s))"

definition strip :: "string \<Rightarrow> string" where
  "strip s = rstrip (dropWhile is_space s)"

definition time_24h :: "string \<Rightarrow> bool" where
  "time_24h t = clock 24 t"

definition time_12h :: "string \<Rightarrow> bool" where
  "time_12h t =
     (2 \<le> length t \<and> am_pm (drop (length t - 2) t) \<and> clock 12 (rstrip (take (length t - 2) t)))"

definition is_time :: "string \<Rightarrow> bool" where
  "is_time s = (time_24h (strip s) \<or> time_12h (strip s))"

text \<open>
  The same forms with the hours a clock shows: 0 to 23 in the 24-hour form and 1 to 12
  in the 12-hour form.
\<close>

definition strict_time :: "string \<Rightarrow> bool" where
  "strict_time s =
     (let t = strip s
      in clock 23 t \<or> (time_12h t \<and> 1 \<le> dec_val (takeWhile (\<lambda>c. c \<noteq> CHR '':'') t)))"

text \<open>The text of a pattern, written with \<open>~\<close> for the backslash.\<close>

definition pattern_text :: "string \<Rightarrow> string" where
  "pattern_text s = map (\<lambda>c. if c = CHR ''~'' then CHR 0x5C else c) s"

section \<open>The error array is only appended to\<close>

lemma verdict_eq: "verdict ok msg errors = (Inr ok, errors @ (if ok then [] else [msg]))"
  by (simp add: verdict_def)

lemma check_key_other:
  "k \<notin> set switch_keys \<Longrightarrow> check_key eng rs k v errors = (Inr True, errors)"
  by (simp add: check_key_def switch_keys_def)

lemma switch_keys_cases:
  "k \<in> set switch_keys \<Longrightarrow>
     k = ''minExclusive'' \<or> k = ''minInclusive'' \<or> k = ''maxExclusive'' \<or>
     k = ''maxInclusive'' \<or> k = ''totalDigits'' \<or> k = ''fractionDigits'' \<or>
     k = ''length'' \<or> k = ''maxLength'' \<or> k = ''minLength'' \<or> k = ''pattern''"
  unfolding switch_keys_def by simp

lemma check_pattern_frame:
  "\<exists>out ms. \<forall>errors. check_pattern eng kv v errors = (out, errors @ ms)"
proof (cases kv)
  case (JStr s)
  show ?thesis
  proof (cases "RegExp_new eng (part (split CHR ''/'' s) 1) (part (split CHR ''/'' s) 2)")
    case (Inl e)
    then have "\<forall>errors. check_pattern eng kv v errors = (Inl e, errors @ [])"
      by (simp add: check_pattern_def JStr)
    then show ?thesis by blast
  next
    case (Inr re)
    then have "\<forall>errors. check_pattern eng kv v errors =
        (Inr (test_new re v),
         errors @ (if test_new re v then [] else [message ''must match a RegExp pattern of '' kv]))"
      by (simp add: check_pattern_def JStr verdict_eq)
    then show ?thesis by blast
  qed
qed (simp_all add: check_pattern_def)

lemma check_key_frame:
  "\<exists>out ms. \<forall>errors. check_key eng rs k v errors = (out, errors @ ms)"
proof (cases "k \<in> set switch_keys")
  case False
  then have "\<forall>errors. check_key eng rs k v errors = (Inr True, errors @ [])"
    by (simp add: check_key_other)
  then show ?thesis by blast
next
  case True
  then show ?thesis
    by (elim switch_keys_cases [THEN disjE] disjE)
       (simp_all add: check_key_def Let_def verdict_eq check_pattern_frame)
qed

lemma check_key_append:
  "check_key eng rs k v errors = (fst (check_key eng rs k v []), errors @ snd (check_key eng rs k v []))"
proof -
  obtain out ms where h: "\<forall>errors. check_key eng rs k v errors = (out, errors @ ms)"
    using check_key_frame by blast
  have "check_key eng rs k v [] = (out, ms)" using h by simp
  moreover have "check_key eng rs k v errors = (out, errors @ ms)" using h by simp
  ultimately show ?thesis by simp
qed

lemma restrictions_loop_append:
  "restrictions_loop eng rs ks v a errors =
     (fst (restrictions_loop eng rs ks v a []), errors @ snd (restrictions_loop eng rs ks v a []))"
proof (induction ks arbitrary: a errors)
  case Nil
  show ?case by simp
next
  case (Cons k ks)
  obtain out ms where km: "check_key eng rs k v [] = (out, ms)"
    by (cases "check_key eng rs k v []")
  have ke: "check_key eng rs k v errors = (out, errors @ ms)"
    using check_key_append [of eng rs k v errors] km by simp
  show ?case
  proof (cases out)
    case (Inl e)
    with km ke show ?thesis by simp
  next
    case (Inr b)
    have "restrictions_loop eng rs (k # ks) v a errors =
            restrictions_loop eng rs ks v (a \<and> b) (errors @ ms)"
      using ke Inr by simp
    moreover have "restrictions_loop eng rs (k # ks) v a [] = restrictions_loop eng rs ks v (a \<and> b) ms"
      using km Inr by simp
    ultimately show ?thesis
      using Cons.IH [of "a \<and> b" "errors @ ms"] Cons.IH [of "a \<and> b" ms] by simp
  qed
qed

lemma checkRestrictions_append:
  "checkRestrictions eng rs v errors =
     (fst (checkRestrictions eng rs v []), errors @ snd (checkRestrictions eng rs v []))"
proof (cases "v \<noteq> JUndefined \<and> v \<noteq> JNull \<and> v \<noteq> JStr []")
  case True
  then show ?thesis
    unfolding checkRestrictions_def
    using restrictions_loop_append [of eng rs "map fst rs" v True errors] by simp
next
  case False
  then show ?thesis unfolding checkRestrictions_def by auto
qed

lemma checkRequired_append:
  "checkRequired r v errors = (fst (checkRequired r v []), errors @ snd (checkRequired r v []))"
  by (simp add: checkRequired_def)

lemma checkDataType_append:
  "checkDataType dt v errors = (fst (checkDataType dt v []), errors @ snd (checkDataType dt v []))"
  by (simp add: checkDataType_def Let_def)

section \<open>One key of the restrictions\<close>

lemma check_key_cases:
  "check_key eng rs k v [] = (Inr True, []) \<or>
   (\<exists>m. check_key eng rs k v [] = (Inr False, [m])) \<or>
   (k = ''pattern'' \<and> (\<exists>e. check_key eng rs k v [] = (Inl e, [])))"
proof (cases "k \<in> set switch_keys")
  case False
  then show ?thesis by (simp add: check_key_other)
next
  case True
  have pat: "check_pattern eng kv v [] = (Inr True, []) \<or>
             (\<exists>m. check_pattern eng kv v [] = (Inr False, [m])) \<or>
             (\<exists>e. check_pattern eng kv v [] = (Inl e, []))" for kv
    by (cases kv) (auto simp: check_pattern_def verdict_eq Let_def split: sum.splits)
  from True show ?thesis
    by (elim switch_keys_cases [THEN disjE] disjE)
       (simp_all add: check_key_def Let_def verdict_eq pat)
qed

lemma key_status:
  "(key_passes eng rs v k \<and> \<not> key_fails eng rs v k \<and> \<not> key_throws eng rs v k \<and> key_messages eng rs v k = []) \<or>
   (key_fails eng rs v k \<and> \<not> key_passes eng rs v k \<and> \<not> key_throws eng rs v k \<and>
      (\<exists>m. key_messages eng rs v k = [m])) \<or>
   (key_throws eng rs v k \<and> \<not> key_passes eng rs v k \<and> \<not> key_fails eng rs v k \<and> k = ''pattern'' \<and>
      key_messages eng rs v k = [])"
  using check_key_cases [of eng rs k v]
  by (auto simp: key_passes_def key_fails_def key_throws_def key_messages_def)

text \<open>
  The loop on keys none of which throws: the conjunction of the checks, and the messages
  of the keys in their order.
\<close>

lemma restrictions_loop_total:
  "\<not> list_ex (key_throws eng rs v) ks \<Longrightarrow>
     restrictions_loop eng rs ks v a errors =
       (Inr (a \<and> list_all (key_passes eng rs v) ks), errors @ concat (map (key_messages eng rs v) ks))"
proof (induction ks arbitrary: a errors)
  case Nil
  show ?case by simp
next
  case (Cons k ks)
  from Cons.prems have nt: "\<not> key_throws eng rs v k" and rest: "\<not> list_ex (key_throws eng rs v) ks"
    by simp_all
  obtain b where kb: "fst (check_key eng rs k v []) = Inr b"
    using nt by (cases "fst (check_key eng rs k v [])") (simp_all add: key_throws_def)
  have ke: "check_key eng rs k v errors = (Inr b, errors @ key_messages eng rs v k)"
    using check_key_append [of eng rs k v errors] kb by (simp add: key_messages_def)
  have pb: "key_passes eng rs v k = b"
    using kb by (simp add: key_passes_def)
  show ?case
    using ke pb Cons.IH [OF rest, of "a \<and> b" "errors @ key_messages eng rs v k"] by auto
qed

text \<open>The loop up to the first key that throws.\<close>

lemma restrictions_loop_throws:
  "\<not> list_ex (key_throws eng rs v) ks \<Longrightarrow> key_throws eng rs v k \<Longrightarrow>
     \<exists>e. restrictions_loop eng rs (ks @ k # ks') v a errors =
       (Inl e, errors @ concat (map (key_messages eng rs v) ks))"
proof (induction ks arbitrary: a errors)
  case Nil
  obtain e where ke: "fst (check_key eng rs k v []) = Inl e"
    using Nil.prems(2) by (cases "fst (check_key eng rs k v [])") (simp_all add: key_throws_def)
  have "key_messages eng rs v k = []"
    using key_status [of eng rs v k] Nil.prems(2) by auto
  then have "check_key eng rs k v errors = (Inl e, errors)"
    using check_key_append [of eng rs k v errors] ke by (simp add: key_messages_def)
  then show ?case by simp
next
  case (Cons k0 ks)
  from Cons.prems have nt: "\<not> key_throws eng rs v k0" and rest: "\<not> list_ex (key_throws eng rs v) ks"
    by simp_all
  obtain b where kb: "fst (check_key eng rs k0 v []) = Inr b"
    using nt by (cases "fst (check_key eng rs k0 v [])") (simp_all add: key_throws_def)
  have ke: "check_key eng rs k0 v errors = (Inr b, errors @ key_messages eng rs v k0)"
    using check_key_append [of eng rs k0 v errors] kb by (simp add: key_messages_def)
  show ?case
    using ke Cons.IH [OF rest Cons.prems(2), of "a \<and> b" "errors @ key_messages eng rs v k0"] by auto
qed

section \<open>Absent values\<close>

text \<open>
  Claim C1. For every data type, every set of restrictions and every value that is
  \<open>undefined\<close>, \<open>null\<close> or the empty string, checkDataType and checkRestrictions return
  true and leave the error array as it was; of the three checks only checkRequired
  rejects such a value.
\<close>

theorem exempt_when_absent:
  assumes "value = JUndefined \<or> value = JNull \<or> value = JStr []"
  shows "checkDataType dataType value errors = (True, errors) \<and>
         checkRestrictions eng restrictions value errors = (Inr True, errors) \<and>
         checkRequired True value errors = (False, errors @ [JStr ''requires a value''])"
  using assms by (auto simp: checkDataType_def checkRestrictions_def checkRequired_def)

theorem exempt_when_absent_witness:
  "checkDataType ''INT'' (JStr []) [JStr ''x''] = (True, [JStr ''x'']) \<and>
   checkRestrictions sample_engine [(''minLength'', JNum 3), (''pattern'', JNum 5)] (JStr [])
       [JStr ''x'']
     = (Inr True, [JStr ''x'']) \<and>
   checkRequired True (JStr []) [JStr ''x''] = (False, [JStr ''x'', JStr ''requires a value''])"
  using exempt_when_absent [of "JStr []" "''INT''" "[JStr ''x'']" sample_engine
      "[(''minLength'', JNum 3), (''pattern'', JNum 5)]"]
  by simp

section \<open>The required check\<close>

text \<open>
  Claim C3. checkRequired returns false and appends exactly the message
  \<open>requires a value\<close> if and only if \<open>required\<close> is true and the value is \<open>undefined\<close>,
  \<open>null\<close>, the empty string, an object whose \<open>text\<close> is the empty string or an array of
  length zero; in every other case, the number 0 among them, it returns true and appends
  nothing.
\<close>

theorem checkRequired_spec:
  "checkRequired required value errors =
     (if required \<and> value \<in> {JUndefined, JNull, JStr [], JObj (Some (JStr [])), JArr []}
      then (False, errors @ [JStr ''requires a value''])
      else (True, errors))"
  by (cases "value"; simp add: checkRequired_def isObject_def isArray_def get_text_def
        split: option.splits)

theorem checkRequired_spec_witness:
  "checkRequired True (JNum 0) [] = (True, []) \<and>
   checkRequired True (JObj (Some (JStr []))) [] = (False, [JStr ''requires a value'']) \<and>
   checkRequired False JNull [] = (True, [])"
  using checkRequired_spec [of True "JNum 0" "[]"]
        checkRequired_spec [of True "JObj (Some (JStr []))" "[]"]
        checkRequired_spec [of False JNull "[]"]
  by simp

section \<open>Data types without a rule\<close>

text \<open>
  Claim C8. For every data type outside the ones the \<open>switch\<close> has a rule for, and for
  \<open>DT\<close>, \<open>ST\<close>, \<open>DTM\<close>, \<open>RTO\<close>, \<open>QTY\<close>, \<open>CNE\<close> and \<open>CWE\<close>, checkDataType returns true
  and appends nothing, whatever the value.
\<close>

theorem default_valid:
  assumes "dataType \<notin> set ruled_types \<or>
           dataType \<in> set [''DT'', ''ST'', ''DTM'', ''RTO'', ''QTY'', ''CNE'', ''CWE'']"
  shows "checkDataType dataType value errors = (True, errors)"
proof -
  have "dataType \<notin> set ruled_types"
    using assms unfolding ruled_types_def by auto
  then have "dataType_valid dataType value"
    by (simp add: dataType_valid_def ruled_types_def)
  then show ?thesis by (simp add: checkDataType_def)
qed

theorem default_valid_witness:
  "checkDataType ''DT'' (JStr ''not a date'') [] = (True, []) \<and>
   checkDataType ''no such type'' (JNum 7) [JStr ''x''] = (True, [JStr ''x''])"
  using default_valid [of "''DT''" "JStr ''not a date''" "[]"]
        default_valid [of "''no such type''" "JNum 7" "[JStr ''x'']"]
  by (simp add: ruled_types_def)

section \<open>No hidden state\<close>

text \<open>
  A call on the store returns what the function of the arguments returns, and leaves the
  store with the objects it has built added at the end.
\<close>

lemma grown_nil: "grown [] st = st"
  by (simp add: grown_def)

lemma grown_grown: "grown bs (grown as st) = grown (as @ bs) st"
  by (simp add: grown_def)

lemma table_grown: "table (grown obs st) = table st"
  by (simp add: grown_def)

lemma regexps_grown: "regexps (grown obs st) = regexps st @ obs"
  by (simp add: grown_def)

lemma test_created:
  "test_at (fst (create ex st)) value (snd (create ex st)) =
     (test_new ex value, grown [\<lparr>exec = ex, lastIndex = snd (ex 0 (ToString value))\<rparr>] st)"
  by (simp add: test_at_def create_def test_new_def grown_def Let_def case_prod_beta)

lemma literal_test_run:
  "literal_test re value st =
     (test re value, grown [\<lparr>exec = exec_of re, lastIndex = 0\<rparr>] st)"
  by (simp add: literal_test_def case_prod_beta test_created test_new_def test_def exec_of_def)

lemma dataType_valid_st_run:
  "\<exists>obs. dataType_valid_st dt v st = (dataType_valid dt v, grown obs st)"
proof (cases "dataType_valid_st dt v st = (dataType_valid dt v, st)")
  case True
  then have "dataType_valid_st dt v st = (dataType_valid dt v, grown [] st)"
    by (simp add: grown_nil)
  then show ?thesis by blast
next
  case False
  then obtain re where "dataType_valid_st dt v st = literal_test re v st"
      and "dataType_valid dt v = test re v"
    unfolding dataType_valid_st_def dataType_valid_def by (auto split: if_splits)
  then show ?thesis using literal_test_run [of re v st] by auto
qed

lemma checkDataType_st_run:
  "\<exists>obs. checkDataType_st dt v errors st =
     ((if v \<noteq> JUndefined \<and> v \<noteq> JNull \<and> v \<noteq> JStr [] \<and> \<not> dataType_valid dt v
       then (False, errors @ [errorMessage_st st dt]) else (True, errors)),
      grown obs st)"
proof (cases "v \<noteq> JUndefined \<and> v \<noteq> JNull \<and> v \<noteq> JStr []")
  case True
  obtain obs where "dataType_valid_st dt v st = (dataType_valid dt v, grown obs st)"
    using dataType_valid_st_run by blast
  then have "checkDataType_st dt v errors st =
     ((if \<not> dataType_valid dt v then (False, errors @ [errorMessage_st st dt]) else (True, errors)),
      grown obs st)"
    using True by (simp add: checkDataType_st_def errorMessage_st_def table_grown)
  then show ?thesis using True by auto
next
  case False
  then have "checkDataType_st dt v errors st = ((True, errors), grown [] st)"
    by (auto simp: checkDataType_st_def grown_nil)
  then show ?thesis using False by auto
qed

lemma check_pattern_st_run:
  "\<exists>obs. check_pattern_st eng kv v errors st = (check_pattern eng kv v errors, grown obs st)"
proof (cases kv)
  case (JStr s)
  show ?thesis
  proof (cases "RegExp_new eng (part (split CHR ''/'' s) 1) (part (split CHR ''/'' s) 2)")
    case (Inl e)
    then have "check_pattern_st eng kv v errors st = (check_pattern eng kv v errors, grown [] st)"
      by (simp add: check_pattern_st_def check_pattern_def JStr grown_nil)
    then show ?thesis by blast
  next
    case (Inr ex)
    then have "check_pattern_st eng kv v errors st =
        (check_pattern eng kv v errors,
         grown [\<lparr>exec = ex, lastIndex = snd (ex 0 (ToString v))\<rparr>] st)"
      by (simp add: check_pattern_st_def check_pattern_def JStr case_prod_beta test_created)
    then show ?thesis by blast
  qed
next
  case JUndefined
  then have "check_pattern_st eng kv v errors st = (check_pattern eng kv v errors, grown [] st)"
    by (simp add: check_pattern_st_def check_pattern_def grown_nil)
  then show ?thesis by blast
next
  case JNull
  then have "check_pattern_st eng kv v errors st = (check_pattern eng kv v errors, grown [] st)"
    by (simp add: check_pattern_st_def check_pattern_def grown_nil)
  then show ?thesis by blast
next
  case (JBool b)
  then have "check_pattern_st eng kv v errors st = (check_pattern eng kv v errors, grown [] st)"
    by (simp add: check_pattern_st_def check_pattern_def grown_nil)
  then show ?thesis by blast
next
  case (JNum n)
  then have "check_pattern_st eng kv v errors st = (check_pattern eng kv v errors, grown [] st)"
    by (simp add: check_pattern_st_def check_pattern_def grown_nil)
  then show ?thesis by blast
next
  case (JObj t)
  then have "check_pattern_st eng kv v errors st = (check_pattern eng kv v errors, grown [] st)"
    by (simp add: check_pattern_st_def check_pattern_def grown_nil)
  then show ?thesis by blast
next
  case (JArr xs)
  then have "check_pattern_st eng kv v errors st = (check_pattern eng kv v errors, grown [] st)"
    by (simp add: check_pattern_st_def check_pattern_def grown_nil)
  then show ?thesis by blast
qed

lemma check_key_st_run:
  "\<exists>obs. check_key_st eng rs k v errors st = (check_key eng rs k v errors, grown obs st)"
proof (cases "k = ''pattern''")
  case True
  then have "check_key eng rs k v errors = check_pattern eng (lookup rs k) v errors"
    by (simp add: check_key_def)
  then show ?thesis
    using True check_pattern_st_run [of eng "lookup rs k" v errors st]
    by (simp add: check_key_st_def)
next
  case False
  then have "check_key_st eng rs k v errors st = (check_key eng rs k v errors, grown [] st)"
    by (simp add: check_key_st_def grown_nil)
  then show ?thesis by blast
qed

lemma restrictions_loop_st_run:
  "\<exists>obs. restrictions_loop_st eng rs ks v a errors st =
     (restrictions_loop eng rs ks v a errors, grown obs st)"
proof (induction ks arbitrary: a errors st)
  case Nil
  have "restrictions_loop_st eng rs [] v a errors st =
          (restrictions_loop eng rs [] v a errors, grown [] st)"
    by (simp add: grown_nil)
  then show ?case by blast
next
  case (Cons k ks)
  obtain obs where k: "check_key_st eng rs k v errors st = (check_key eng rs k v errors, grown obs st)"
    using check_key_st_run by blast
  obtain out es where c: "check_key eng rs k v errors = (out, es)"
    by (cases "check_key eng rs k v errors")
  show ?case
  proof (cases out)
    case (Inl e)
    then have "restrictions_loop_st eng rs (k # ks) v a errors st =
        (restrictions_loop eng rs (k # ks) v a errors, grown obs st)"
      using k c by simp
    then show ?thesis by blast
  next
    case (Inr b)
    obtain obs' where "restrictions_loop_st eng rs ks v (a \<and> b) es (grown obs st) =
        (restrictions_loop eng rs ks v (a \<and> b) es, grown obs' (grown obs st))"
      using Cons.IH by blast
    then have "restrictions_loop_st eng rs (k # ks) v a errors st =
        (restrictions_loop eng rs (k # ks) v a errors, grown (obs @ obs') st)"
      using k c Inr by (simp add: grown_grown)
    then show ?thesis by blast
  qed
qed

lemma checkRestrictions_st_run:
  "\<exists>obs. checkRestrictions_st eng rs v errors st =
     (checkRestrictions eng rs v errors, grown obs st)"
proof (cases "v \<noteq> JUndefined \<and> v \<noteq> JNull \<and> v \<noteq> JStr []")
  case True
  then show ?thesis
    using restrictions_loop_st_run [of eng rs "map fst rs" v True errors st]
    by (simp add: checkRestrictions_st_def checkRestrictions_def)
next
  case False
  then have "checkRestrictions_st eng rs v errors st =
      (checkRestrictions eng rs v errors, grown [] st)"
    by (auto simp: checkRestrictions_st_def checkRestrictions_def grown_nil)
  then show ?thesis by blast
qed

lemma checkRequired_st_run:
  "checkRequired_st required v errors st = (checkRequired required v errors, st)"
  by (simp add: checkRequired_st_def checkRequired_def)

text \<open>With the table of the script in the store, checkDataType on the store is checkDataType.\<close>

lemma checkDataType_st_result:
  assumes "table st = errorMessages"
  shows "fst (checkDataType_st dt v errors st) = checkDataType dt v errors"
proof -
  have "errorMessage_st st dt = errorMessage dt"
    using assms by (simp add: errorMessage_st_def errorMessage_def)
  then show ?thesis
    using checkDataType_st_run [of dt v errors st]
    by (auto simp: checkDataType_def Let_def)
qed

text \<open>The objects that were in the store before a call are as they were after it.\<close>

lemma old_objects_kept:
  "take (length (regexps st)) (regexps (snd (checkRequired_st required v errors st))) = regexps st \<and>
   take (length (regexps st)) (regexps (snd (checkDataType_st dt v errors st))) = regexps st \<and>
   take (length (regexps st)) (regexps (snd (checkRestrictions_st eng rs v errors st))) = regexps st"
  using checkDataType_st_run [of dt v errors st] checkRestrictions_st_run [of eng rs v errors st]
  by (auto simp: checkRequired_st_run regexps_grown)

text \<open>
  The position of an object is state: one object of \<^verbatim>\<open>/a/g\<close> tested twice on \<open>a\<close> answers
  true and then false. The checks never test an object twice.
\<close>

lemma one_object_twice:
  "(let (regex, st1) = create find_a loaded;
        (first, st2) = test_at regex (JStr ''a'') st1;
        (second, st3) = test_at regex (JStr ''a'') st2
    in first \<and> \<not> second)"
  by (simp add: test_at_def create_def loaded_def find_a_def Let_def)

text \<open>
  Claim C9. Every check is deterministic and keeps no state between calls. On the store,
  where the table of messages and the positions of the regular expression objects
  outlive a call: what a check returns, the boolean and the error array, depends on the
  store through the table alone, and no check changes the table; so a second call with
  the same arguments and a fresh empty error array, made in the store the first call
  has left, returns the boolean and the array of the first.
\<close>

theorem checks_stateless:
  assumes "table st' = table st"
  shows "fst (checkRequired_st required value errors st') =
           fst (checkRequired_st required value errors st) \<and>
         fst (checkDataType_st dataType value errors st') =
           fst (checkDataType_st dataType value errors st) \<and>
         fst (checkRestrictions_st eng restrictions value errors st') =
           fst (checkRestrictions_st eng restrictions value errors st) \<and>
         table (snd (checkRequired_st required value errors st)) = table st \<and>
         table (snd (checkDataType_st dataType value errors st)) = table st \<and>
         table (snd (checkRestrictions_st eng restrictions value errors st)) = table st \<and>
         fst (checkRequired_st required value []
                (snd (checkRequired_st required value [] st))) =
           fst (checkRequired_st required value [] st) \<and>
         fst (checkDataType_st dataType value []
                (snd (checkDataType_st dataType value [] st))) =
           fst (checkDataType_st dataType value [] st) \<and>
         fst (checkRestrictions_st eng restrictions value []
                (snd (checkRestrictions_st eng restrictions value [] st))) =
           fst (checkRestrictions_st eng restrictions value [] st)"
proof -
  have dt: "fst (checkDataType_st dataType value es s1) = fst (checkDataType_st dataType value es s2)"
    if "table s1 = table s2" for es s1 s2
    using that checkDataType_st_run [of dataType "value" es s1]
      checkDataType_st_run [of dataType "value" es s2]
    by (auto simp: errorMessage_st_def)
  have rs: "fst (checkRestrictions_st eng restrictions value es s1) =
            fst (checkRestrictions_st eng restrictions value es s2)" for es s1 s2
    using checkRestrictions_st_run [of eng restrictions "value" es s1]
      checkRestrictions_st_run [of eng restrictions "value" es s2]
    by auto
  have tdt: "table (snd (checkDataType_st dataType value es s)) = table s" for es s
    using checkDataType_st_run [of dataType "value" es s] by (auto simp: table_grown)
  have trs: "table (snd (checkRestrictions_st eng restrictions value es s)) = table s" for es s
    using checkRestrictions_st_run [of eng restrictions "value" es s] by (auto simp: table_grown)
  show ?thesis
    using dt [OF assms, of errors] dt [OF tdt [of "[]" st], of "[]"] rs tdt trs
    by (simp add: checkRequired_st_run)
qed

lemma stateless_runs:
  "fst (checkRestrictions_st sample_engine global_a (JStr ''a'') [] loaded) = (Inr True, []) \<and>
   fst (checkDataType_st ''INT'' (JStr ''a'') [] loaded) = (False, [JStr ''must be an integer number.''])"
proof -
  have "checkRestrictions sample_engine global_a (JStr ''a'') [] = (Inr True, [])"
    unfolding global_a_def by code_simp
  moreover have "checkDataType ''INT'' (JStr ''a'') [] = (False, [JStr ''must be an integer number.''])"
    by code_simp
  moreover have "table loaded = errorMessages" by (simp add: loaded_def)
  ultimately show ?thesis
    using checkRestrictions_st_run [of sample_engine global_a "JStr ''a''" "[]" loaded]
      checkDataType_st_result [of loaded "''INT''" "JStr ''a''" "[]"]
    by auto
qed

theorem checks_stateless_witness:
  "table used = table loaded \<and>
   fst (checkRestrictions_st sample_engine global_a (JStr ''a'') [] used) = (Inr True, []) \<and>
   fst (checkRestrictions_st sample_engine global_a (JStr ''a'') []
          (snd (checkRestrictions_st sample_engine global_a (JStr ''a'') [] loaded)))
     = (Inr True, []) \<and>
   fst (checkDataType_st ''INT'' (JStr ''a'') [] used)
     = (False, [JStr ''must be an integer number.'']) \<and>
   fst (checkDataType_st ''INT'' (JStr ''a'') []
          (snd (checkDataType_st ''INT'' (JStr ''a'') [] loaded)))
     = (False, [JStr ''must be an integer number.''])"
proof -
  have t: "table used = table loaded" by (simp add: used_def loaded_def)
  show ?thesis
    using checks_stateless [OF t, of True "JStr ''a''" "[]" "''INT''" sample_engine global_a]
      stateless_runs t
    by simp
qed

section \<open>A call that returns\<close>

lemma key_messages_length:
  "length (key_messages eng rs v k) = (if key_fails eng rs v k then 1 else 0)"
  using key_status [of eng rs v k] by auto

lemma messages_count:
  "length (concat (map (key_messages eng rs v) ks)) = length (filter (key_fails eng rs v) ks)"
  by (induction ks) (simp_all add: key_messages_length)

lemma all_pass_iff_none_fails:
  "\<not> list_ex (key_throws eng rs v) ks \<Longrightarrow>
     list_all (key_passes eng rs v) ks = (filter (key_fails eng rs v) ks = [])"
proof (induction ks)
  case Nil
  show ?case by simp
next
  case (Cons k ks)
  then show ?case using key_status [of eng rs v k] by auto
qed

lemma checkRestrictions_total:
  assumes "nonempty v" and "\<not> list_ex (key_throws eng rs v) (map fst rs)"
  shows "checkRestrictions eng rs v errors =
           (Inr (list_all (key_passes eng rs v) (map fst rs)),
            errors @ concat (map (key_messages eng rs v) (map fst rs)))"
  using assms restrictions_loop_total [of eng rs v "map fst rs" True errors]
  by (simp add: checkRestrictions_def nonempty_def)

lemma checkRestrictions_returns:
  assumes ret: "checkRestrictions eng rs v errors = (Inr b, es)" and ne: "nonempty v"
  shows "\<not> list_ex (key_throws eng rs v) (map fst rs)"
proof
  assume "list_ex (key_throws eng rs v) (map fst rs)"
  then have "\<exists>k \<in> set (map fst rs). key_throws eng rs v k"
    by (simp add: list_ex_iff)
  then obtain ks k ks' where sp: "map fst rs = ks @ k # ks'" and kt: "key_throws eng rs v k"
      and nt: "\<forall>y \<in> set ks. \<not> key_throws eng rs v y"
    using split_list_first_prop [of "map fst rs" "key_throws eng rs v"] by blast
  from nt have "\<not> list_ex (key_throws eng rs v) ks"
    by (simp add: list_ex_iff)
  then obtain e where "restrictions_loop eng rs (ks @ k # ks') v True errors =
      (Inl e, errors @ concat (map (key_messages eng rs v) ks))"
    using restrictions_loop_throws [OF _ kt] by blast
  then have "fst (checkRestrictions eng rs v errors) = Inl e"
    using ne sp by (simp add: checkRestrictions_def nonempty_def)
  with ret show False by simp
qed

text \<open>A call throws only for a value that is not empty and a key that throws.\<close>

lemma checkRestrictions_thrown:
  assumes "fst (checkRestrictions eng rs v errors) = Inl e"
  shows "nonempty v \<and> list_ex (key_throws eng rs v) (map fst rs)"
proof -
  have ne: "nonempty v"
    using assms by (auto simp: checkRestrictions_def nonempty_def split: if_splits)
  have "list_ex (key_throws eng rs v) (map fst rs)"
  proof (rule ccontr)
    assume "\<not> list_ex (key_throws eng rs v) (map fst rs)"
    then have "fst (checkRestrictions eng rs v errors) =
        Inr (list_all (key_passes eng rs v) (map fst rs))"
      using checkRestrictions_total [OF ne, of eng rs errors] by simp
    with assms show False by simp
  qed
  with ne show ?thesis by simp
qed

lemma example_range_run:
  "checkRestrictions eng example_range (JStr ''3'') [] =
     (Inr False, [JStr ''must be a value greater than or equal to 5.''])"
  unfolding example_range_def by code_simp

text \<open>
  A pattern with a look-ahead: the engine builds the expression, the value \<open>a\<close> matches
  it, and the check goes on to \<open>minLength\<close>, which fails.
\<close>

lemma look_ahead_keys:
  "check_key sample_engine look_ahead ''pattern'' (JStr ''a'') [] = (Inr True, []) \<and>
   check_key sample_engine look_ahead ''minLength'' (JStr ''a'') []
     = (Inr False, [JStr ''must have a total length greater than or equal to 5.''])"
  unfolding look_ahead_def by code_simp

section \<open>The returned boolean and the messages\<close>

text \<open>
  The messages of a call are those of the keys it checks: all keys when it returns, the
  keys before the first that throws otherwise.
\<close>

lemma restrictions_loop_messages:
  "snd (restrictions_loop eng rs ks v a errors) =
     errors @ concat (map (key_messages eng rs v) (takeWhile (\<lambda>k. \<not> key_throws eng rs v k) ks))"
proof (induction ks arbitrary: a errors)
  case Nil
  show ?case by simp
next
  case (Cons k ks)
  have ke: "check_key eng rs k v errors =
              (fst (check_key eng rs k v []), errors @ key_messages eng rs v k)"
    using check_key_append [of eng rs k v errors] by (simp add: key_messages_def)
  show ?case
  proof (cases "fst (check_key eng rs k v [])")
    case (Inl e)
    then have t: "key_throws eng rs v k" by (simp add: key_throws_def)
    then have "key_messages eng rs v k = []" using key_status [of eng rs v k] by auto
    then show ?thesis using ke Inl t by simp
  next
    case (Inr b)
    then have t: "\<not> key_throws eng rs v k" by (simp add: key_throws_def)
    show ?thesis
      using ke Inr t Cons.IH [of "a \<and> b" "errors @ key_messages eng rs v k"] by simp
  qed
qed

lemma checkRestrictions_messages:
  "snd (checkRestrictions eng rs v errors) =
     errors @ concat (map (key_messages eng rs v) (checked_keys eng rs v))"
proof (cases "nonempty v")
  case True
  then show ?thesis
    using restrictions_loop_messages [of eng rs "map fst rs" v True errors]
    by (simp add: checkRestrictions_def checked_keys_def nonempty_def)
next
  case False
  then show ?thesis
    by (auto simp: checkRestrictions_def checked_keys_def nonempty_def)
qed

lemma checked_keys_all:
  assumes "fst (checkRestrictions eng rs v errors) = Inr b"
  shows "checked_keys eng rs v = (if nonempty v then map fst rs else [])"
proof (cases "nonempty v")
  case True
  obtain es where "checkRestrictions eng rs v errors = (Inr b, es)"
    using assms by (cases "checkRestrictions eng rs v errors") simp
  then have "\<not> list_ex (key_throws eng rs v) (map fst rs)"
    using checkRestrictions_returns True by blast
  then have "takeWhile (\<lambda>k. \<not> key_throws eng rs v k) (map fst rs) = map fst rs"
    by (simp add: list_ex_iff takeWhile_eq_all_conv)
  then show ?thesis using True by (simp add: checked_keys_def)
next
  case False
  then show ?thesis by (simp add: checked_keys_def)
qed

text \<open>
  Claim C10, amended. On a fresh empty error array checkRequired and checkDataType
  return false exactly when they have appended a message, which is then the only one.
  checkRestrictions appends the messages of the keys it checks, in their order: one
  message for a key that fails and none for any other, so as many messages as there are
  failing keys among the keys checked. When it returns, it has checked every key (of a
  value that is not empty) and the boolean is false exactly when a message was appended;
  when it throws, which it does only for a value that is not empty and a key that
  throws, it has checked the keys before that key.
\<close>

theorem verdict_matches_messages:
  "length (snd (checkRequired required value [])) =
     (if fst (checkRequired required value []) then 0 else 1) \<and>
   length (snd (checkDataType dataType value [])) =
     (if fst (checkDataType dataType value []) then 0 else 1) \<and>
   snd (checkRestrictions eng restrictions value []) =
     concat (map (key_messages eng restrictions value) (checked_keys eng restrictions value)) \<and>
   length (key_messages eng restrictions value key) =
     (if key_fails eng restrictions value key then 1 else 0) \<and>
   length (snd (checkRestrictions eng restrictions value [])) =
     length (filter (key_fails eng restrictions value) (checked_keys eng restrictions value)) \<and>
   (case fst (checkRestrictions eng restrictions value []) of
      Inl e \<Rightarrow> nonempty value \<and>
               list_ex (key_throws eng restrictions value) (map fst restrictions)
    | Inr b \<Rightarrow> (\<not> b) = (snd (checkRestrictions eng restrictions value []) \<noteq> []) \<and>
               checked_keys eng restrictions value =
                 (if nonempty value then map fst restrictions else []))"
proof -
  have l: "snd (checkRestrictions eng restrictions value []) =
     concat (map (key_messages eng restrictions value) (checked_keys eng restrictions value))"
    using checkRestrictions_messages [of eng restrictions "value" "[]"] by simp
  have p: "length (key_messages eng restrictions value key) =
     (if key_fails eng restrictions value key then 1 else 0)"
    by (rule key_messages_length)
  have r: "length (snd (checkRequired required value [])) =
           (if fst (checkRequired required value []) then 0 else 1)"
    by (simp add: checkRequired_def)
  have d: "length (snd (checkDataType dataType value [])) =
           (if fst (checkDataType dataType value []) then 0 else 1)"
    by (simp add: checkDataType_def Let_def)
  have m: "length (snd (checkRestrictions eng restrictions value [])) =
     length (filter (key_fails eng restrictions value) (checked_keys eng restrictions value))"
    using checkRestrictions_messages [of eng restrictions "value" "[]"] messages_count by simp
  have c: "case fst (checkRestrictions eng restrictions value []) of
      Inl e \<Rightarrow> nonempty value \<and>
               list_ex (key_throws eng restrictions value) (map fst restrictions)
    | Inr b \<Rightarrow> (\<not> b) = (snd (checkRestrictions eng restrictions value []) \<noteq> []) \<and>
               checked_keys eng restrictions value =
                 (if nonempty value then map fst restrictions else [])"
  proof (cases "fst (checkRestrictions eng restrictions value [])")
    case (Inl e)
    then show ?thesis using checkRestrictions_thrown [OF Inl] by simp
  next
    case (Inr b)
    obtain es where run: "checkRestrictions eng restrictions value [] = (Inr b, es)"
      using Inr by (cases "checkRestrictions eng restrictions value []") simp
    have k: "checked_keys eng restrictions value =
               (if nonempty value then map fst restrictions else [])"
      using checked_keys_all [OF Inr] .
    have "(\<not> b) = (es \<noteq> [])"
    proof (cases "nonempty value")
      case False
      then have "checkRestrictions eng restrictions value [] = (Inr True, [])"
        by (auto simp: checkRestrictions_def nonempty_def)
      with run show ?thesis by simp
    next
      case True
      have nt: "\<not> list_ex (key_throws eng restrictions value) (map fst restrictions)"
        using checkRestrictions_returns [OF run True] .
      have "checkRestrictions eng restrictions value [] =
          (Inr (list_all (key_passes eng restrictions value) (map fst restrictions)),
           [] @ concat (map (key_messages eng restrictions value) (map fst restrictions)))"
        using checkRestrictions_total [OF True nt] .
      with run have b: "b = list_all (key_passes eng restrictions value) (map fst restrictions)"
        and es: "es = concat (map (key_messages eng restrictions value) (map fst restrictions))"
        by simp_all
      have len: "length es =
                   length (filter (key_fails eng restrictions value) (map fst restrictions))"
        unfolding es by (rule messages_count)
      have "b = (filter (key_fails eng restrictions value) (map fst restrictions) = [])"
        using b all_pass_iff_none_fails [OF nt] by simp
      then show ?thesis using len by (metis length_0_conv)
    qed
    then show ?thesis using Inr run k by simp
  qed
  from r d l p m c show ?thesis by simp
qed

text \<open>A call that throws after one key has failed, before another that would fail.\<close>

lemma glob_pattern_run:
  "checkRestrictions eng glob_pattern (JStr ''abc'') [] =
     (Inl SyntaxError, [JStr ''must have a total length greater than or equal to 5.'']) \<and>
   filter (key_fails eng glob_pattern (JStr ''abc'')) (map fst glob_pattern)
     = [''minLength'', ''maxLength''] \<and>
   checked_keys eng glob_pattern (JStr ''abc'') = [''minLength'']"
  unfolding glob_pattern_def key_fails_def checked_keys_def key_throws_def by code_simp

theorem verdict_matches_messages_witness:
  "checkRestrictions sample_engine example_range (JStr ''3'') [] =
     (Inr False, [JStr ''must be a value greater than or equal to 5.'']) \<and>
   checked_keys sample_engine example_range (JStr ''3'') = [''minInclusive'', ''maxInclusive''] \<and>
   length (filter (key_fails sample_engine example_range (JStr ''3''))
             [''minInclusive'', ''maxInclusive'']) = 1 \<and>
   length (snd (checkRequired True (JStr ''3'') [])) = 0 \<and>
   length (snd (checkDataType ''INT'' (JStr ''3'') [])) = 0 \<and>
   nonempty (JStr ''abc'') \<and>
   list_ex (key_throws sample_engine glob_pattern (JStr ''abc'')) (map fst glob_pattern) \<and>
   length (filter (key_fails sample_engine glob_pattern (JStr ''abc''))
             (checked_keys sample_engine glob_pattern (JStr ''abc''))) = 1"
proof -
  have ne: "nonempty (JStr ''3'')" by (simp add: nonempty_def)
  have q: "fst (checkRequired True (JStr ''3'') [])"
    by (simp add: checkRequired_def isObject_def isArray_def)
  have t: "fst (checkDataType ''INT'' (JStr ''3'') [])" by code_simp
  show ?thesis
    using verdict_matches_messages [of True "JStr ''3''" "''INT''" sample_engine example_range]
      verdict_matches_messages [of True "JStr ''abc''" "''INT''" sample_engine glob_pattern]
      example_range_run [of sample_engine] glob_pattern_run [of sample_engine] ne q t
    by (simp add: example_range_def)
qed

text \<open>
  As stated, for every call, the claim fails: with the restrictions
  \<^verbatim>\<open>{minLength: "5", pattern: "/*.txt/", maxLength: "2"}\<close> and the value \<open>abc\<close> the call
  appends the message of \<open>minLength\<close> and then throws at the pattern, so it returns no
  boolean; and of the two keys that fail, \<open>minLength\<close> and \<open>maxLength\<close>, only the first
  has its message in the array.
\<close>

theorem verdict_counterexample:
  "checkRestrictions sample_engine glob_pattern (JStr ''abc'') [] =
     (Inl SyntaxError, [JStr ''must have a total length greater than or equal to 5.'']) \<and>
   filter (key_fails sample_engine glob_pattern (JStr ''abc'')) (map fst glob_pattern)
     = [''minLength'', ''maxLength'']"
  unfolding glob_pattern_def key_fails_def by code_simp

section \<open>Messages in the shared error array\<close>

text \<open>
  Claim C7, amended. Each check leaves the entries of the caller's error array as they
  are and only appends to it. When the three checks run one after the other on one
  array, the array holds what it held before, then the message of the required check if
  that failed, then the message of the data type if that failed, then one message for
  every failing key among the restriction keys that were checked, in the order of the
  mapping. The keys checked are all keys (of a value that is not empty) when
  checkRestrictions returns; when it throws, which it does only for a value that is not
  empty and a key that throws, they are the keys before that key.
\<close>

theorem errors_only_appended:
  assumes "checkRequired required value errors = (b1, e1)"
      and "checkDataType dataType value e1 = (b2, e2)"
      and "checkRestrictions eng restrictions value e2 = (out, e3)"
  shows "snd (checkRequired required value errors) =
           errors @ snd (checkRequired required value []) \<and>
         snd (checkDataType dataType value errors) =
           errors @ snd (checkDataType dataType value []) \<and>
         snd (checkRestrictions eng restrictions value errors) =
           errors @ snd (checkRestrictions eng restrictions value []) \<and>
         e3 = errors @ (if b1 then [] else [JStr ''requires a value''])
                     @ (if b2 then [] else [errorMessage dataType])
                     @ concat (map (key_messages eng restrictions value)
                                 (checked_keys eng restrictions value)) \<and>
         length (key_messages eng restrictions value key) =
           (if key_fails eng restrictions value key then 1 else 0) \<and>
         (case out of
            Inl e \<Rightarrow> nonempty value \<and>
                     list_ex (key_throws eng restrictions value) (map fst restrictions)
          | Inr b \<Rightarrow> checked_keys eng restrictions value =
                      (if nonempty value then map fst restrictions else []))"
proof -
  have e1: "e1 = errors @ (if b1 then [] else [JStr ''requires a value''])"
    using assms(1) by (auto simp: checkRequired_def split: if_splits)
  have e2: "e2 = e1 @ (if b2 then [] else [errorMessage dataType])"
    using assms(2) by (auto simp: checkDataType_def Let_def split: if_splits)
  have e3: "e3 = e2 @ concat (map (key_messages eng restrictions value)
                                 (checked_keys eng restrictions value))"
    using checkRestrictions_messages [of eng restrictions "value" e2] assms(3) by simp
  have k: "case out of
            Inl e \<Rightarrow> nonempty value \<and>
                     list_ex (key_throws eng restrictions value) (map fst restrictions)
          | Inr b \<Rightarrow> checked_keys eng restrictions value =
                      (if nonempty value then map fst restrictions else [])"
  proof (cases out)
    case (Inl e)
    then have "fst (checkRestrictions eng restrictions value e2) = Inl e" using assms(3) by simp
    then show ?thesis using checkRestrictions_thrown Inl by simp
  next
    case (Inr b)
    then have "fst (checkRestrictions eng restrictions value e2) = Inr b" using assms(3) by simp
    then show ?thesis using checked_keys_all Inr by simp
  qed
  show ?thesis
    using e1 e2 e3 k checkRequired_append [of required "value" errors]
      checkDataType_append [of dataType "value" errors]
      checkRestrictions_append [of eng restrictions "value" errors]
      key_messages_length [of eng restrictions "value" key]
    by simp
qed

lemma shared_run:
  "checkRequired True (JStr ''3'') [JStr ''earlier''] = (True, [JStr ''earlier'']) \<and>
   checkDataType ''TM'' (JStr ''3'') [JStr ''earlier'']
     = (False, [JStr ''earlier'', JStr ''must be a time value.'']) \<and>
   checkRestrictions eng example_range (JStr ''3'') [JStr ''earlier'', JStr ''must be a time value.'']
     = (Inr False, [JStr ''earlier'', JStr ''must be a time value.'',
                    JStr ''must be a value greater than or equal to 5.''])"
  unfolding example_range_def by code_simp

theorem errors_only_appended_witness:
  "checkRequired True (JStr ''3'') [JStr ''earlier''] = (True, [JStr ''earlier'']) \<and>
   checkDataType ''TM'' (JStr ''3'') [JStr ''earlier'']
     = (False, [JStr ''earlier'', JStr ''must be a time value.'']) \<and>
   checkRestrictions sample_engine example_range (JStr ''3'')
       [JStr ''earlier'', JStr ''must be a time value.'']
     = (Inr False, [JStr ''earlier'', JStr ''must be a time value.'',
                    JStr ''must be a value greater than or equal to 5.'']) \<and>
   [JStr ''earlier'', JStr ''must be a time value.'',
    JStr ''must be a value greater than or equal to 5.'']
     = [JStr ''earlier''] @ [] @ [errorMessage ''TM'']
       @ concat (map (key_messages sample_engine example_range (JStr ''3''))
                   (checked_keys sample_engine example_range (JStr ''3''))) \<and>
   checked_keys sample_engine example_range (JStr ''3'') = map fst example_range"
proof -
  have ne: "nonempty (JStr ''3'')" by (simp add: nonempty_def)
  show ?thesis
    using errors_only_appended [OF shared_run [THEN conjunct1]
        shared_run [THEN conjunct2, THEN conjunct1]
        shared_run [of sample_engine, THEN conjunct2, THEN conjunct2]]
      shared_run [of sample_engine] ne
    by simp
qed

text \<open>
  As stated, with one message for every failing restriction of the mapping, the claim
  fails: on the array \<open>["earlier"]\<close>, the value \<open>abc\<close> and the restrictions
  \<^verbatim>\<open>{pattern: "/[a-z/", maxLength: "2"}\<close> the required check passes, the data type \<open>INT\<close>
  appends its message, and checkRestrictions throws at the pattern, whose class is not
  closed. \<open>maxLength\<close> fails for this value, and its message is not in the array.
\<close>

theorem shared_list_counterexample:
  "checkRequired True (JStr ''abc'') [JStr ''earlier''] = (True, [JStr ''earlier'']) \<and>
   checkDataType ''INT'' (JStr ''abc'') [JStr ''earlier'']
     = (False, [JStr ''earlier'', JStr ''must be an integer number.'']) \<and>
   checkRestrictions sample_engine open_class (JStr ''abc'')
       [JStr ''earlier'', JStr ''must be an integer number.'']
     = (Inl SyntaxError, [JStr ''earlier'', JStr ''must be an integer number.'']) \<and>
   filter (key_fails sample_engine open_class (JStr ''abc'')) (map fst open_class)
     = [''maxLength''] \<and>
   key_messages sample_engine open_class (JStr ''abc'') ''maxLength''
     = [JStr ''must have a total length less than or equal to 2.'']"
  unfolding open_class_def key_fails_def key_messages_def by code_simp

section \<open>Every restriction is checked\<close>

text \<open>
  Claim C2, amended. For a value that is not empty and restrictions none of whose keys
  throws (only \<open>pattern\<close> can), checkRestrictions checks every key in the order of the
  mapping and does not stop at a failure: it returns the conjunction of the checks, and
  the error array gains the messages of the failing keys in that order, a passing key
  adding none. The example of the specification is the witness: for
  \<^verbatim>\<open>{minInclusive: "5", maxInclusive: "10"}\<close> and \<open>"3"\<close> the result is false with the
  message of \<open>minInclusive\<close> alone.
\<close>

theorem restrictions_all_checked:
  assumes "nonempty value"
      and "\<not> list_ex (key_throws eng restrictions value) (map fst restrictions)"
  shows "checkRestrictions eng restrictions value errors =
           (Inr (list_all (key_passes eng restrictions value) (map fst restrictions)),
            errors @ concat (map (key_messages eng restrictions value) (map fst restrictions))) \<and>
         (if key_passes eng restrictions value key then key_messages eng restrictions value key = []
          else if key_fails eng restrictions value key
          then (\<exists>m. key_messages eng restrictions value key = [m])
          else key_throws eng restrictions value key \<and> key = ''pattern'')"
  using checkRestrictions_total [OF assms, of errors] key_status [of eng restrictions "value" key]
  by auto

theorem restrictions_all_checked_witness:
  "checkRestrictions sample_engine example_range (JStr ''3'') [] =
     (Inr False, [JStr ''must be a value greater than or equal to 5.'']) \<and>
   key_messages sample_engine example_range (JStr ''3'') ''minInclusive''
     = [JStr ''must be a value greater than or equal to 5.''] \<and>
   key_messages sample_engine example_range (JStr ''3'') ''maxInclusive'' = [] \<and>
   key_fails sample_engine example_range (JStr ''3'') ''minInclusive'' \<and>
   key_passes sample_engine example_range (JStr ''3'') ''maxInclusive'' \<and>
   \<not> list_ex (key_throws sample_engine look_ahead (JStr ''a'')) (map fst look_ahead) \<and>
   checkRestrictions sample_engine look_ahead (JStr ''a'') [] =
     (Inr False, [JStr ''must have a total length greater than or equal to 5.''])"
proof -
  have ne: "nonempty (JStr ''3'')" "nonempty (JStr ''a'')" by (simp_all add: nonempty_def)
  have k1: "check_key sample_engine example_range ''minInclusive'' (JStr ''3'') []
              = (Inr False, [JStr ''must be a value greater than or equal to 5.''])"
    unfolding example_range_def by code_simp
  have k2: "check_key sample_engine example_range ''maxInclusive'' (JStr ''3'') [] = (Inr True, [])"
    unfolding example_range_def by code_simp
  have nt: "\<not> list_ex (key_throws sample_engine example_range (JStr ''3'')) (map fst example_range)"
    using k1 k2 by (simp add: key_throws_def example_range_def)
  have nl: "\<not> list_ex (key_throws sample_engine look_ahead (JStr ''a'')) (map fst look_ahead)"
    using look_ahead_keys by (simp add: key_throws_def look_ahead_def)
  have ml: "map fst look_ahead = [''pattern'', ''minLength'']" by (simp add: look_ahead_def)
  show ?thesis
    using restrictions_all_checked [OF ne(1) nt, of "[]" "''minInclusive''"]
      restrictions_all_checked [OF ne(2) nl, of "[]" "''minLength''"] k1 k2 nl look_ahead_keys ml
    by (simp add: key_messages_def key_fails_def key_passes_def example_range_def)
qed

text \<open>
  As stated for every mapping, the claim fails: a pattern that \<open>new RegExp\<close> rejects
  throws at its key, so the call returns no boolean, and \<open>minInclusive\<close>, which fails for
  this value, is never checked and appends no message.
\<close>

theorem restrictions_throw_counterexample:
  "checkRestrictions sample_engine bad_group (JStr ''3'') [] = (Inl SyntaxError, []) \<and>
   key_fails sample_engine bad_group (JStr ''3'') ''minInclusive''"
  unfolding bad_group_def key_fails_def by code_simp

section \<open>Numeric restrictions and exceptions\<close>

lemma parse_float_NaN: "(parse_float s = NaN) = (\<not> numeric_prefix s)"
proof -
  obtain neg u where su: "take_sign (dropWhile is_space s) = (neg, u)"
    by (cases "take_sign (dropWhile is_space s)")
  show ?thesis
  proof (cases "take 8 u = ''Infinity''")
    case True
    then show ?thesis by (simp add: parse_float_def numeric_prefix_def su)
  next
    case False
    then show ?thesis
      by (cases u) (auto simp: parse_float_def numeric_prefix_def su Let_def split: list.splits)
  qed
qed

lemma num_lt_NaN [simp]: "num_lt x NaN = False"
  by (cases x) simp_all

lemma numeric_key_NaN:
  assumes "key \<in> set numeric_keys" and "parseFloat value = NaN"
  shows "check_key eng rs key value errors =
           (Inr False, errors @ [message (numeric_text key) (lookup rs key)])"
proof -
  from assms(1) have "key = ''minExclusive'' \<or> key = ''minInclusive'' \<or>
      key = ''maxExclusive'' \<or> key = ''maxInclusive''"
    unfolding numeric_keys_def by simp
  then show ?thesis
    using assms(2)
    by (elim disjE)
       (simp_all add: check_key_def Let_def verdict_eq numeric_text_def num_gt_def num_ge_def
          num_le_def)
qed

lemma numeric_key_returns:
  assumes "key \<in> set numeric_keys"
  shows "\<exists>b. fst (check_key eng rs key value errors) = Inr b"
proof -
  from assms(1) have "key = ''minExclusive'' \<or> key = ''minInclusive'' \<or>
      key = ''maxExclusive'' \<or> key = ''maxInclusive''"
    unfolding numeric_keys_def by simp
  then show ?thesis
    by (elim disjE) (simp_all add: check_key_def Let_def verdict_eq)
qed

lemma no_pattern_no_throw:
  assumes "''pattern'' \<notin> set (map fst rs)"
  shows "\<exists>b. fst (checkRestrictions eng rs v errors) = Inr b"
proof (cases "nonempty v")
  case False
  then have "checkRestrictions eng rs v errors = (Inr True, errors)"
    by (auto simp: checkRestrictions_def nonempty_def)
  then show ?thesis by auto
next
  case True
  have "\<not> key_throws eng rs v k" if "k \<in> set (map fst rs)" for k
    using key_status [of eng rs v k] that assms by force
  then have "\<not> list_ex (key_throws eng rs v) (map fst rs)"
    by (simp add: list_ex_iff)
  then show ?thesis
    using checkRestrictions_total [OF True, of eng rs errors] by auto
qed

text \<open>
  Claim C4, amended. The checks of \<open>minExclusive\<close>, \<open>minInclusive\<close>, \<open>maxExclusive\<close> and
  \<open>maxInclusive\<close> never throw; a value that parses to \<open>NaN\<close>, as every string without a
  numeric prefix does, fails each of them with its message. Of all checks only the one
  of \<open>pattern\<close> can throw: checkRestrictions returns for every mapping without that key,
  and a pattern that is not a string is a TypeError. (checkRequired and checkDataType
  have no failing operation: their results are plain pairs.)
\<close>

theorem numeric_checks_total:
  assumes "key \<in> set numeric_keys"
  shows "(\<exists>b. fst (check_key eng rs key value errors) = Inr b) \<and>
         (parseFloat value = NaN \<longrightarrow>
            check_key eng rs key value errors =
              (Inr False, errors @ [message (numeric_text key) (lookup rs key)])) \<and>
         (parseFloat (JStr s) = NaN) = (\<not> numeric_prefix s) \<and>
         (''pattern'' \<notin> set (map fst rs') \<longrightarrow>
            (\<exists>b. fst (checkRestrictions eng rs' value' errors') = Inr b)) \<and>
         (key_throws eng rs' value' key' \<longrightarrow> key' = ''pattern'') \<and>
         (case keyValue of
            JStr p \<Rightarrow> True
          | _ \<Rightarrow> check_pattern eng keyValue value' errors' = (Inl TypeError, errors'))"
proof -
  have a: "(parseFloat (JStr s) = NaN) = (\<not> numeric_prefix s)"
    by (simp add: parseFloat_def parse_float_NaN)
  have b: "key_throws eng rs' value' key' \<longrightarrow> key' = ''pattern''"
    using key_status [of eng rs' value' key'] by auto
  have c: "case keyValue of
            JStr p \<Rightarrow> True
          | _ \<Rightarrow> check_pattern eng keyValue value' errors' = (Inl TypeError, errors')"
    by (cases keyValue) (simp_all add: check_pattern_def)
  show ?thesis
    using numeric_key_returns [OF assms, of eng rs "value" errors]
      numeric_key_NaN [OF assms, of "value" eng rs errors]
      no_pattern_no_throw [of rs' eng value' errors'] a b c
    by blast
qed

lemma numeric_run:
  "check_key eng [(''maxExclusive'', JNum 7)] ''maxExclusive'' (JStr ''abc'') [JStr ''x'']
     = (Inr False, [JStr ''x'', JStr ''must be a value less than 7.''])"
  by code_simp

theorem numeric_checks_total_witness:
  "''maxExclusive'' \<in> set numeric_keys \<and>
   parseFloat (JStr ''abc'') = NaN \<and>
   check_key sample_engine [(''maxExclusive'', JNum 7)] ''maxExclusive'' (JStr ''abc'')
       [JStr ''x'']
     = (Inr False, [JStr ''x'', JStr ''must be a value less than 7.'']) \<and>
   \<not> numeric_prefix ''abc'' \<and>
   (\<exists>b. fst (checkRestrictions sample_engine example_range (JStr ''abc'') []) = Inr b)"
proof -
  have k: "''maxExclusive'' \<in> set numeric_keys" by (simp add: numeric_keys_def)
  have n: "\<not> numeric_prefix ''abc''" by code_simp
  have p: "''pattern'' \<notin> set (map fst example_range)" by (simp add: example_range_def)
  show ?thesis
    using numeric_checks_total [OF k, of sample_engine "[(''maxExclusive'', JNum 7)]"
        "JStr ''abc''" "[JStr ''x'']" "''abc''" example_range "JStr ''abc''" "[]"]
      k n p numeric_run [of sample_engine]
    by simp
qed

text \<open>
  As stated, that no check throws on any input, the claim fails on a pattern with a
  letter that is no flag and on a pattern that is not a string.
\<close>

theorem pattern_throws_counterexample:
  "checkRestrictions sample_engine bad_flag (JStr ''abc'') [] = (Inl SyntaxError, []) \<and>
   checkRestrictions sample_engine not_a_string (JStr ''abc'') [] = (Inl TypeError, [])"
  unfolding bad_flag_def not_a_string_def by code_simp

section \<open>The pattern restriction\<close>

text \<open>
  Claim C6 has a pattern restriction of the form \<open>/pattern/flags\<close> split into its pattern
  and its flags and the value tested against the expression they give. The code does so
  only while the pattern holds no slash. The restriction \<^verbatim>\<open>/^[0-9]+\/[0-9]+$/\<close> has
  the form, with no flags; \<open>keyValue.split("/")\<close> cuts it at the escaped slash as well,
  so \<open>new RegExp\<close> receives \<^verbatim>\<open>^[0-9]+\\<close> as the pattern and \<^verbatim>\<open>[0-9]+$\<close> as the
  flags and throws a SyntaxError, where the value \<open>120/80\<close> matches the pattern.
\<close>

theorem slash_in_pattern_throws:
  "checkRestrictions eng [(''pattern'', JStr ratio_pattern)] (JStr ''120/80'') [] = (Inl SyntaxError, [])"
  unfolding ratio_pattern_def by code_simp

text \<open>The pattern itself, as \<open>new RegExp\<close> would read it, accepts the value.\<close>

lemma slash_in_pattern_intended:
  "case RegExp_new eng (Some (''^[0-9]+'' @ [CHR 0x5C] @ ''/[0-9]+$'')) (Some []) of
     Inl e \<Rightarrow> False
   | Inr regex \<Rightarrow> test_new regex (JStr ''120/80'')"
  by code_simp

text \<open>The example of the claim: the flag \<open>i\<close> is honoured.\<close>

lemma pattern_flag_example:
  "checkRestrictions eng [(''pattern'', JStr ''/^[A-Z]+$/i'')] (JStr ''abc'') [] = (Inr True, [])"
  by code_simp

lemma pattern_no_flag_example:
  "checkRestrictions eng [(''pattern'', JStr ''/^[A-Z]+$/'')] (JStr ''abc'') []
     = (Inr False, [JStr ''must match a RegExp pattern of /^[A-Z]+$/.''])"
  by code_simp

text \<open>
  With no slash inside the pattern and the flags, the restriction is split into the two
  and the value is tested against the expression they give.
\<close>

lemma split1_no_sep: "d \<notin> set s \<Longrightarrow> split1 d s = (s, [])"
  by (induction s) auto

lemma split1_at_sep:
  "d \<notin> set p \<Longrightarrow> split1 d (p @ d # r) = (p, fst (split1 d r) # snd (split1 d r))"
  by (induction p) (auto simp: case_prod_beta)

lemma split_wrapped:
  assumes "CHR ''/'' \<notin> set p" and "CHR ''/'' \<notin> set f"
  shows "split CHR ''/'' (CHR ''/'' # p @ CHR ''/'' # f) = [[], p, f]"
  using assms by (simp add: split_def split1_at_sep split1_no_sep)

lemma pattern_without_slash:
  assumes "CHR ''/'' \<notin> set p" and "CHR ''/'' \<notin> set f"
  shows "check_pattern eng (JStr (CHR ''/'' # p @ CHR ''/'' # f)) v errors =
           (case RegExp_new eng (Some p) (Some f) of
              Inl e \<Rightarrow> (Inl e, errors)
            | Inr regex \<Rightarrow>
                verdict (test_new regex v)
                  (message ''must match a RegExp pattern of '' (JStr (CHR ''/'' # p @ CHR ''/'' # f)))
                  errors)"
  by (simp add: check_pattern_def split_wrapped [OF assms] part_def)

section \<open>The matcher computes the language\<close>

lemma adv_append: "adv (adv p u) v = adv p (u @ v)"
  by (simp add: adv_def)

lemma afterI: "(p, w @ cs) \<in> K \<Longrightarrow> w \<in> L \<Longrightarrow> (adv p w, cs) \<in> after L K"
  unfolding after_def by blast

lemma afterE:
  assumes "k \<in> after L K"
  obtains p w cs where "k = (adv p w, cs)" and "(p, w @ cs) \<in> K" and "w \<in> L"
  using assms unfolding after_def by blast

lemma concI: "u \<in> A \<Longrightarrow> v \<in> B \<Longrightarrow> u @ v \<in> conc A B"
  unfolding conc_def by blast

lemma concE:
  assumes "w \<in> conc A B"
  obtains u v where "w = u @ v" and "u \<in> A" and "v \<in> B"
  using assms unfolding conc_def by blast

lemma after_eps: "after {[]} K = K"
  by (auto simp: after_def adv_def)

lemma after_conc: "after B (after A K) = after (conc A B) K"
proof (rule set_eqI)
  fix k
  show "k \<in> after B (after A K) \<longleftrightarrow> k \<in> after (conc A B) K"
  proof
    assume "k \<in> after B (after A K)"
    then obtain q v cs where k: "k = (adv q v, cs)" and q: "(q, v @ cs) \<in> after A K" and v: "v \<in> B"
      by (rule afterE)
    from q obtain p u cs' where qe: "(q, v @ cs) = (adv p u, cs')" and p: "(p, u @ cs') \<in> K"
        and u: "u \<in> A"
      by (rule afterE)
    from qe have q': "q = adv p u" and cs': "cs' = v @ cs" by simp_all
    have "(adv p (u @ v), cs) \<in> after (conc A B) K"
      using p cs' concI [OF u v] afterI [of p "u @ v" cs K "conc A B"] by simp
    then show "k \<in> after (conc A B) K"
      using k q' by (simp add: adv_append)
  next
    assume "k \<in> after (conc A B) K"
    then obtain p w cs where k: "k = (adv p w, cs)" and p: "(p, w @ cs) \<in> K" and w: "w \<in> conc A B"
      by (rule afterE)
    from w obtain u v where we: "w = u @ v" and u: "u \<in> A" and v: "v \<in> B"
      by (rule concE)
    have "(adv p u, v @ cs) \<in> after A K"
      using p we afterI [of p u "v @ cs" K A] u by simp
    then have "(adv (adv p u) v, cs) \<in> after B (after A K)"
      using v by (rule afterI)
    then show "k \<in> after B (after A K)"
      using k we by (simp add: adv_append)
  qed
qed

lemma after_Un: "after (A \<union> B) K = after A K \<union> after B K"
  by (auto simp: after_def)

lemma after_UN: "after (\<Union>i\<in>I. A i) K = (\<Union>i\<in>I. after (A i) K)"
  by (auto simp: after_def)

lemma bounded_after: "bounded n K \<Longrightarrow> bounded n (after L K)"
  by (fastforce simp: bounded_def after_def)

lemma set_eat: "set (concat (map (eat P) ks)) = after {[c] | c. P c} (set ks)"
proof (rule set_eqI)
  fix k
  show "k \<in> set (concat (map (eat P) ks)) \<longleftrightarrow> k \<in> after {[c] | c. P c} (set ks)"
  proof
    assume "k \<in> set (concat (map (eat P) ks))"
    then obtain k0 where k0: "k0 \<in> set ks" and kk: "k \<in> set (eat P k0)" by auto
    obtain p cs0 where k0e: "k0 = (p, cs0)" by (cases k0)
    from kk k0e obtain c cs where cs0: "cs0 = c # cs" and pc: "P c" and ke: "k = (Some c, cs)"
      by (auto simp: eat_def split: list.splits if_splits)
    have "(p, [c] @ cs) \<in> set ks" using k0 k0e cs0 by simp
    moreover have "adv p [c] = Some c" by (simp add: adv_def)
    moreover have "[c] \<in> {[c] | c. P c}" using pc by blast
    ultimately show "k \<in> after {[c] | c. P c} (set ks)"
      using ke afterI [of p "[c]" cs "set ks" "{[c] | c. P c}"] by simp
  next
    assume "k \<in> after {[c] | c. P c} (set ks)"
    then obtain p w cs where ke0: "k = (adv p w, cs)" and p0: "(p, w @ cs) \<in> set ks"
        and w: "w \<in> {[c] | c. P c}"
      by (rule afterE)
    from w obtain c where wc: "w = [c]" and pc: "P c" by blast
    have ke: "k = (adv p [c], cs)" and p: "(p, [c] @ cs) \<in> set ks"
      using ke0 p0 wc by simp_all
    have "k \<in> set (eat P (p, c # cs))" using ke pc by (simp add: eat_def adv_def)
    then show "k \<in> set (concat (map (eat P) ks))" using p by force
  qed
qed

lemma conc_assoc: "conc (conc A B) C = conc A (conc B C)"
proof (rule set_eqI)
  fix w
  show "w \<in> conc (conc A B) C \<longleftrightarrow> w \<in> conc A (conc B C)"
  proof
    assume "w \<in> conc (conc A B) C"
    then obtain x c where w: "w = x @ c" and x: "x \<in> conc A B" and c: "c \<in> C" by (rule concE)
    from x obtain a b where xe: "x = a @ b" and a: "a \<in> A" and b: "b \<in> B" by (rule concE)
    show "w \<in> conc A (conc B C)"
      using concI [OF a concI [OF b c]] w xe by simp
  next
    assume "w \<in> conc A (conc B C)"
    then obtain a y where w: "w = a @ y" and a: "a \<in> A" and y: "y \<in> conc B C" by (rule concE)
    from y obtain b c where ye: "y = b @ c" and b: "b \<in> B" and c: "c \<in> C" by (rule concE)
    show "w \<in> conc (conc A B) C"
      using concI [OF concI [OF a b] c] w ye by simp
  qed
qed

lemma conc_eps_left: "conc {[]} A = A"
  by (auto simp: conc_def)

lemma conc_eps_right: "conc A {[]} = A"
  by (auto simp: conc_def)

lemma lpow_add: "conc (lpow L a) (lpow L b) = lpow L (a + b)"
  by (induction a) (simp_all add: conc_eps_left conc_assoc)

text \<open>A word of \<open>j + 1\<close> factors that is no longer than \<open>j\<close> has an empty factor, which can go.\<close>

lemma lpow_drop: "w \<in> lpow L (Suc j) \<Longrightarrow> length w \<le> j \<Longrightarrow> w \<in> lpow L j"
proof (induction j arbitrary: w)
  case 0
  then show ?case by simp
next
  case (Suc j)
  from Suc.prems(1) have "w \<in> conc L (lpow L (Suc j))" by simp
  then obtain u v where w: "w = u @ v" and u: "u \<in> L" and v: "v \<in> lpow L (Suc j)"
    by (rule concE)
  show ?case
  proof (cases "u = []")
    case True
    then show ?thesis using w v by simp
  next
    case False
    then have "length v \<le> j" using Suc.prems(2) w by (cases u) auto
    then have "v \<in> lpow L j" using Suc.IH v by blast
    then show ?thesis using concI [OF u] w by simp
  qed
qed

lemma lpow_shrink: "w \<in> lpow L (e + d) \<Longrightarrow> length w \<le> e \<Longrightarrow> w \<in> lpow L e"
proof (induction d)
  case 0
  then show ?case by simp
next
  case (Suc d)
  have "w \<in> lpow L (Suc (e + d))" using Suc.prems(1) by simp
  then have "w \<in> lpow L (e + d)" using lpow_drop Suc.prems(2) by (meson le_add1 le_trans)
  then show ?case using Suc by blast
qed

lemma funpow_after:
  assumes g: "\<And>ks. bounded n (set ks) \<Longrightarrow> set (g ks) = after L (set ks)"
  shows "bounded n (set ks) \<Longrightarrow> set ((g ^^ i) ks) = after (lpow L i) (set ks)"
proof (induction i arbitrary: ks)
  case 0
  then show ?case by (simp add: after_eps)
next
  case (Suc i)
  have b: "bounded n (set (g ks))" using g [OF Suc.prems] bounded_after [OF Suc.prems] by simp
  have "(g ^^ Suc i) ks = (g ^^ i) (g ks)" by (simp add: funpow_swap1)
  then show ?case using Suc.IH [OF b] g [OF Suc.prems] by (simp add: after_conc)
qed

lemma rep_upto_after:
  assumes g: "\<And>ks. bounded n (set ks) \<Longrightarrow> set (g ks) = after L (set ks)"
  shows "bounded n (set ks) \<Longrightarrow>
           set (rep_upto g m ks) = (\<Union>i \<in> {..m}. after (lpow L i) (set ks))"
proof (induction m arbitrary: ks)
  case 0
  then show ?case by (simp add: after_eps)
next
  case (Suc m)
  have b: "bounded n (set (remdups (g ks)))"
    using g [OF Suc.prems] bounded_after [OF Suc.prems] by simp
  have "set (rep_upto g (Suc m) ks) =
          set ks \<union> (\<Union>i \<in> {..m}. after (lpow L i) (after L (set ks)))"
    using Suc.IH [OF b] g [OF Suc.prems] by simp
  also have "\<dots> = after (lpow L 0) (set ks) \<union> (\<Union>i \<in> {..m}. after (lpow L (Suc i)) (set ks))"
    by (simp add: after_eps after_conc)
  also have "\<dots> = (\<Union>i \<in> {..Suc m}. after (lpow L i) (set ks))"
  proof -
    have "{..Suc m} = insert 0 (Suc ` {..m})"
      by (auto simp: image_iff) (metis Suc_le_mono Suc_pred atMost_iff not_gr_zero)
    then show ?thesis by simp
  qed
  finally show ?case .
qed

lemma rep_reach:
  assumes b: "bounded n K"
  shows "(\<Union>i \<in> {..m}. after (lpow L (lo + i)) K) =
           after (\<Union>i \<in> {i. lo \<le> i \<and> i \<le> lo + m}. lpow L i) K"
proof -
  have "{i. lo \<le> i \<and> i \<le> lo + m} = (\<lambda>i. lo + i) ` {..m}"
  proof (rule set_eqI)
    fix i
    show "i \<in> {i. lo \<le> i \<and> i \<le> lo + m} \<longleftrightarrow> i \<in> (\<lambda>i. lo + i) ` {..m}"
    proof
      assume "i \<in> {i. lo \<le> i \<and> i \<le> lo + m}"
      then have "i = lo + (i - lo)" and "i - lo \<in> {..m}" by auto
      then show "i \<in> (\<lambda>i. lo + i) ` {..m}" by (rule image_eqI)
    next
      assume "i \<in> (\<lambda>i. lo + i) ` {..m}"
      then show "i \<in> {i. lo \<le> i \<and> i \<le> lo + m}" by auto
    qed
  qed
  then show ?thesis by (simp add: after_UN)
qed

lemma unbounded_reach:
  assumes b: "bounded n K"
  shows "after (\<Union>i \<in> {i. lo \<le> i \<and> i \<le> lo + n}. lpow L i) K =
         after (\<Union>i \<in> {i. lo \<le> i}. lpow L i) K"
proof (rule set_eqI)
  fix k
  show "k \<in> after (\<Union>i \<in> {i. lo \<le> i \<and> i \<le> lo + n}. lpow L i) K \<longleftrightarrow>
        k \<in> after (\<Union>i \<in> {i. lo \<le> i}. lpow L i) K"
  proof
    assume "k \<in> after (\<Union>i \<in> {i. lo \<le> i \<and> i \<le> lo + n}. lpow L i) K"
    then show "k \<in> after (\<Union>i \<in> {i. lo \<le> i}. lpow L i) K"
      by (auto simp: after_UN)
  next
    assume "k \<in> after (\<Union>i \<in> {i. lo \<le> i}. lpow L i) K"
    then obtain p w cs where k: "k = (adv p w, cs)" and p: "(p, w @ cs) \<in> K"
        and w: "w \<in> (\<Union>i \<in> {i. lo \<le> i}. lpow L i)"
      by (rule afterE)
    from w obtain j where j: "lo \<le> j" and wj: "w \<in> lpow L j" by blast
    have len: "length w \<le> n" using b p by (fastforce simp: bounded_def)
    have "\<exists>i. lo \<le> i \<and> i \<le> lo + n \<and> w \<in> lpow L i"
    proof (cases "j \<le> lo + n")
      case True
      then show ?thesis using j wj by blast
    next
      case False
      then have "\<exists>d. j = (lo + n) + d" by presburger
      then obtain d where jd: "j = (lo + n) + d" by blast
      have "length w \<le> lo + n" using len by simp
      then have "w \<in> lpow L (lo + n)"
        using lpow_shrink [of w L "lo + n" d] wj jd by simp
      then have "lo \<le> lo + n \<and> lo + n \<le> lo + n \<and> w \<in> lpow L (lo + n)" by simp
      then show ?thesis by (rule exI)
    qed
    then have "w \<in> (\<Union>i \<in> {i. lo \<le> i \<and> i \<le> lo + n}. lpow L i)" by blast
    then show "k \<in> after (\<Union>i \<in> {i. lo \<le> i \<and> i \<le> lo + n}. lpow L i) K"
      using k afterI [OF p] by simp
  qed
qed

text \<open>
  On an expression without assertions the matcher reaches exactly the states that lie
  behind a word of its language. In particular the \<open>n\<close> rounds it gives an unbounded
  quantifier lose nothing on an input of length \<open>n\<close>.
\<close>

theorem ends_plain:
  "plain r \<Longrightarrow> bounded n (set ks) \<Longrightarrow> set (ends f n r ks) = after (lang f r) (set ks)"
proof (induction r arbitrary: ks)
  case Eps
  show ?case by (simp add: after_eps)
next
  case (Chars neg rs)
  show ?case unfolding ends.simps lang.simps by (rule set_eat)
next
  case Dot
  show ?case unfolding ends.simps lang.simps by (rule set_eat)
next
  case (Seq a b)
  have a: "set (ends f n a ks) = after (lang f a) (set ks)"
    using Seq.IH(1) Seq.prems by simp
  have "bounded n (set (ends f n a ks))"
    using a bounded_after [OF Seq.prems(2)] by simp
  then have "set (ends f n b (ends f n a ks)) = after (lang f b) (set (ends f n a ks))"
    using Seq.IH(2) Seq.prems(1) by simp
  then show ?case using a by (simp add: after_conc)
next
  case (Alt a b)
  then show ?case by (simp add: after_Un)
next
  case (Rep lo hi r)
  let ?g = "ends f n r" and ?L = "lang f r" and ?K = "set ks"
  let ?m = "case hi of None \<Rightarrow> n | Some h \<Rightarrow> h - lo"
  have g: "\<And>ks. bounded n (set ks) \<Longrightarrow> set (?g ks) = after ?L (set ks)"
    using Rep.IH Rep.prems(1) by simp
  have lo: "set ((?g ^^ lo) ks) = after (lpow ?L lo) ?K"
    using funpow_after [of n ?g ?L ks lo] g Rep.prems(2) by blast
  have blo: "bounded n (set ((?g ^^ lo) ks))"
    using lo bounded_after [OF Rep.prems(2)] by simp
  have "set (ends f n (Rep lo hi r) ks) = (\<Union>i \<in> {..?m}. after (lpow ?L i) (after (lpow ?L lo) ?K))"
    using rep_upto_after [of n ?g ?L "(?g ^^ lo) ks" ?m] g blo lo by simp
  also have "\<dots> = (\<Union>i \<in> {..?m}. after (lpow ?L (lo + i)) ?K)"
    by (simp add: after_conc lpow_add)
  also have "\<dots> = after (\<Union>i \<in> {i. lo \<le> i \<and> i \<le> lo + ?m}. lpow ?L i) ?K"
    using rep_reach [OF Rep.prems(2)] .
  also have "\<dots> = after (lang f (Rep lo hi r)) ?K"
  proof (cases hi)
    case None
    then show ?thesis using unbounded_reach [OF Rep.prems(2), where lo = lo and L = ?L] by simp
  next
    case (Some h)
    have "{i. lo \<le> i \<and> i \<le> lo + (h - lo)} = {i. lo \<le> i \<and> i \<le> max lo h}" by auto
    then show ?thesis using Some by simp
  qed
  finally show ?case .
next
  case Bol
  then show ?case by simp
next
  case Eol
  then show ?case by simp
next
  case (WordB b)
  then show ?case by simp
qed

section \<open>The time pattern\<close>

text \<open>
  An expression \<open>^r$\<close> without the multiline flag, \<open>r\<close> free of assertions, accepts the
  words of the language of \<open>r\<close>.
\<close>

lemma all_cfgs_Some: "k \<in> set (all_cfgs (Some c) s) \<Longrightarrow> fst k \<noteq> None"
  by (induction s arbitrary: c) auto

lemma bol_start: "filter (at_bol False) (all_cfgs None s) = [(None, s)]"
proof (cases s)
  case Nil
  then show ?thesis by (simp add: at_bol_def)
next
  case (Cons c cs)
  have "filter (at_bol False) (all_cfgs (Some c) cs) = []"
    using all_cfgs_Some [of _ c cs] by (auto simp: filter_empty_conv at_bol_def split: option.splits)
  then show ?thesis using Cons by (simp add: at_bol_def)
qed

lemma at_eol_plain: "at_eol False k = (snd k = [])"
  by (cases "snd k") (simp_all add: at_eol_def)

lemma anchored_test:
  assumes "plain r" and "\<not> multiline f"
  shows "(ends f (length s) Eol (ends f (length s) r (ends f (length s) Bol (all_cfgs None s))) \<noteq> [])
           = (s \<in> lang f r)"
proof -
  let ?X = "ends f (length s) r [(None, s)]"
  have b: "bounded (length s) (set [(None, s)])" by (simp add: bounded_def)
  have X: "set ?X = after (lang f r) {(None, s)}"
    using ends_plain [OF assms(1) b, of f] by simp
  have "(filter (at_eol False) ?X \<noteq> []) = (\<exists>k \<in> set ?X. snd k = [])"
    by (simp add: filter_empty_conv at_eol_plain)
  also have "\<dots> = (s \<in> lang f r)"
  proof
    assume "\<exists>k \<in> set ?X. snd k = []"
    then obtain k where k: "k \<in> after (lang f r) {(None, s)}" and e: "snd k = []"
      using X by blast
    from k obtain p w cs where "k = (adv p w, cs)" and "(p, w @ cs) \<in> {(None, s)}"
        and "w \<in> lang f r"
      by (rule afterE)
    then show "s \<in> lang f r" using e by auto
  next
    assume "s \<in> lang f r"
    then have "(adv None s, []) \<in> after (lang f r) {(None, s)}"
      using afterI [of None s "[]" "{(None, s)}" "lang f r"] by simp
    then show "\<exists>k \<in> set ?X. snd k = []" using X by force
  qed
  finally show ?thesis using assms(2) by (simp add: bol_start)
qed

lemma conc_char:
  "(w \<in> conc {[c] | c. P c} B) = (case w of [] \<Rightarrow> False | c # v \<Rightarrow> P c \<and> v \<in> B)"
proof (cases w)
  case Nil
  show ?thesis
  proof
    assume "w \<in> conc {[c] | c. P c} B"
    then obtain u v where "w = u @ v" and "u \<in> {[c] | c. P c}" by (rule concE)
    then show "case w of [] \<Rightarrow> False | c # v \<Rightarrow> P c \<and> v \<in> B" using Nil by auto
  qed (simp add: Nil)
next
  case (Cons c v)
  show ?thesis
  proof
    assume "w \<in> conc {[c] | c. P c} B"
    then obtain u v' where "w = u @ v'" and "u \<in> {[c] | c. P c}" and "v' \<in> B" by (rule concE)
    then show "case w of [] \<Rightarrow> False | c # v \<Rightarrow> P c \<and> v \<in> B" using Cons by auto
  next
    assume "case w of [] \<Rightarrow> False | c # v \<Rightarrow> P c \<and> v \<in> B"
    then have "P c" and "v \<in> B" using Cons by simp_all
    then have "[c] @ v \<in> conc {[c] | c. P c} B" by (intro concI) auto
    then show "w \<in> conc {[c] | c. P c} B" using Cons by simp
  qed
qed

lemma lpow_chars: "lpow {[c] | c. P c} i = {w. length w = i \<and> list_all P w}"
proof (induction i)
  case 0
  show ?case by auto
next
  case (Suc i)
  show ?case
  proof (rule set_eqI)
    fix w
    show "w \<in> lpow {[c] | c. P c} (Suc i) \<longleftrightarrow> w \<in> {w. length w = Suc i \<and> list_all P w}"
      using Suc by (cases w) (auto simp: conc_char)
  qed
qed

lemma star_chars: "lang f (Rep 0 None (Chars neg rs)) = {w. list_all (chars_match (ignoreCase f) neg rs) w}"
  by (auto simp: lpow_chars)

text \<open>The languages of the building blocks.\<close>

lemma lang_seqs: "lang f (seqs rs) = foldr (\<lambda>r. conc (lang f r)) rs {[]}"
  by (induction rs) (simp_all add: seqs_def)

lemma lang_alts: "rs \<noteq> [] \<Longrightarrow> lang f (alts rs) = (\<Union>r \<in> set rs. lang f r)"
  by (induction rs rule: alts.induct) auto

lemma lang_group: "as \<noteq> [] \<Longrightarrow> lang f (group as) = (\<Union>a \<in> set as. lang f (seqs a))"
  by (simp add: group_def lang_alts)

lemma plain_seqs: "plain (seqs rs) = list_all plain rs"
  by (induction rs) (simp_all add: seqs_def)

lemma plain_alts: "plain (alts rs) = list_all plain rs"
  by (induction rs rule: alts.induct) auto

lemma plain_group: "plain (group as) = list_all (list_all plain) as"
  by (simp add: group_def plain_alts list_all_iff plain_seqs)

lemma single_class: "chars_match False False (map single ds) c = (c \<in> set ds)"
  by (induction ds) (auto simp: chars_match_def in_ranges_def single_def)

lemma range_class:
  "chars_match False False [rng a b] c = ((of_char a :: nat) \<le> of_char c \<and> (of_char c :: nat) \<le> of_char b)"
  by (simp add: chars_match_def in_ranges_def rng_def)

lemma digit_class: "chars_match False False d_ranges c = is_digit c"
  by (simp add: chars_match_def in_ranges_def d_ranges_def is_digit_def)

lemma space_ranges: "in_ranges s_ranges n = (n \<in> set [9, 10, 11, 12, 13, 32, 160])"
proof -
  have "(9 \<le> n \<and> n \<le> 13 \<or> 32 \<le> n \<and> n \<le> 32 \<or> 160 \<le> n \<and> n \<le> 160) =
        (n = 9 \<or> n = 10 \<or> n = 11 \<or> n = 12 \<or> n = 13 \<or> n = 32 \<or> n = 160)"
    by presburger
  then show ?thesis
    by (simp add: in_ranges_def s_ranges_def)
qed

lemma space_class: "chars_match False False s_ranges c = is_space c"
  by (simp only: chars_match_def is_space_def space_ranges if_False) simp

lemma lang_spaces: "\<not> ignoreCase f \<Longrightarrow> lang f (many rx_s) = {w. list_all is_space w}"
proof -
  have "chars_match False False s_ranges = is_space"
    by (rule ext) (rule space_class)
  then show "\<not> ignoreCase f \<Longrightarrow> lang f (many rx_s) = {w. list_all is_space w}"
    by (simp add: many_def rx_s_def star_chars del: lang.simps)
qed

lemma conc_word: "(w \<in> conc A B) = (\<exists>u v. w = u @ v \<and> u \<in> A \<and> v \<in> B)"
  unfolding conc_def by blast

lemma nf: "ignoreCase no_flags = False" "multiline no_flags = False"
  by (simp_all add: no_flags_def)

lemma conc_single:
  "(w \<in> conc {[d]} B) = (case w of [] \<Rightarrow> False | c # v \<Rightarrow> c = d \<and> v \<in> B)"
  using conc_char [of w "\<lambda>c. c = d" B] by simp

lemma lit_class: "chars_match False False [(n, n)] c = (of_char c = n)"
  by (auto simp: chars_match_def in_ranges_def)

lemmas tm_lang = tm_hour24_def tm_hour12_def tm_ampm_def lang_group lang_seqs conc_char
  conc_single rx_d_def lit_def nf(1) range_class digit_class lit_class

text \<open>The parts of the time pattern: hours, minutes, \<open>am\<close> and \<open>pm\<close>.\<close>

lemma dec_val_1: "dec_val [a] = digit_val a"
  by (simp add: dec_val_def)

lemma dec_val_2: "dec_val [a, b] = 10 * digit_val a + digit_val b"
  by (simp add: dec_val_def)

lemma two_digits:
  assumes "is_digit a" and "is_digit b"
  shows "(dec_val [a, b] \<le> 24) =
           ((of_char a :: nat) \<le> 49 \<or> (of_char a :: nat) = 50 \<and> (of_char b :: nat) \<le> 52)"
    and "(dec_val [a, b] \<le> 12) =
           ((of_char a :: nat) = 48 \<or> (of_char a :: nat) = 49 \<and> (of_char b :: nat) \<le> 50)"
    and "(dec_val [a, b] \<le> 59) = ((of_char a :: nat) \<le> 53)"
  using assms unfolding dec_val_2 digit_val_def is_digit_def by arith+

lemma one_digit: "is_digit a \<Longrightarrow> dec_val [a] \<le> 9"
  unfolding dec_val_1 digit_val_def is_digit_def by arith

lemma hour24_lang: "(h \<in> lang no_flags tm_hour24) = hour_upto 24 h"
proof (cases h)
  case Nil
  then show ?thesis by (simp add: tm_lang hour_upto_def)
next
  case h1: (Cons a t)
  show ?thesis
  proof (cases t)
    case Nil
    then show ?thesis
      using h1 one_digit [of a] by (auto simp: tm_lang hour_upto_def)
  next
    case t1: (Cons b u)
    show ?thesis
    proof (cases u)
      case Nil
      then show ?thesis
        using h1 t1 two_digits(1) [of a b]
        by (auto simp: tm_lang hour_upto_def is_digit_def)
    next
      case (Cons c v)
      then show ?thesis
        using h1 t1 by (simp add: tm_lang hour_upto_def)
    qed
  qed
qed

lemma hour12_lang: "(h \<in> lang no_flags tm_hour12) = hour_upto 12 h"
proof (cases h)
  case Nil
  then show ?thesis by (simp add: tm_lang hour_upto_def)
next
  case h1: (Cons a t)
  show ?thesis
  proof (cases t)
    case Nil
    then show ?thesis
      using h1 one_digit [of a] by (auto simp: tm_lang hour_upto_def)
  next
    case t1: (Cons b u)
    show ?thesis
    proof (cases u)
      case Nil
      then show ?thesis
        using h1 t1 two_digits(2) [of a b]
        by (auto simp: tm_lang hour_upto_def is_digit_def)
    next
      case (Cons c v)
      then show ?thesis
        using h1 t1 by (simp add: tm_lang hour_upto_def)
    qed
  qed
qed

lemma minutes_lang: "(m \<in> lang no_flags tm_minutes) = minutes m"
proof (cases m)
  case Nil
  then show ?thesis by (simp add: tm_minutes_def tm_lang minutes_def)
next
  case m1: (Cons a t)
  show ?thesis
  proof (cases t)
    case Nil
    then show ?thesis using m1 by (simp add: tm_minutes_def tm_lang minutes_def)
  next
    case t1: (Cons b u)
    show ?thesis
    proof (cases u)
      case Nil
      then show ?thesis
        using m1 t1 two_digits(3) [of a b]
        by (auto simp: tm_minutes_def tm_lang minutes_def is_digit_def)
    next
      case (Cons c v)
      then show ?thesis
        using m1 t1 by (simp add: tm_minutes_def tm_lang minutes_def)
    qed
  qed
qed

lemma code_of_char:
  "((of_char c :: nat) = 97) = (c = CHR ''a'')" "((of_char c :: nat) = 65) = (c = CHR ''A'')"
  "((of_char c :: nat) = 112) = (c = CHR ''p'')" "((of_char c :: nat) = 80) = (c = CHR ''P'')"
  "((of_char c :: nat) = 109) = (c = CHR ''m'')" "((of_char c :: nat) = 77) = (c = CHR ''M'')"
  "((of_char c :: nat) = 58) = (c = CHR '':'')"
  using of_char_eq_iff [of c "CHR ''a''", where ?'a = nat]
    of_char_eq_iff [of c "CHR ''A''", where ?'a = nat]
    of_char_eq_iff [of c "CHR ''p''", where ?'a = nat]
    of_char_eq_iff [of c "CHR ''P''", where ?'a = nat]
    of_char_eq_iff [of c "CHR ''m''", where ?'a = nat]
    of_char_eq_iff [of c "CHR ''M''", where ?'a = nat]
    of_char_eq_iff [of c "CHR '':''", where ?'a = nat]
  by simp_all

lemma ampm_lang: "(x \<in> lang no_flags tm_ampm) = am_pm x"
proof -
  have c1: "chars_match False False
              [single CHR ''a'', single CHR ''A'', single CHR ''p'', single CHR ''P''] c
            = (c \<in> set ''aApP'')" for c
    using single_class [of "''aApP''" c] by simp
  have c2: "chars_match False False [single CHR ''m'', single CHR ''M''] c = (c \<in> set ''mM'')" for c
    using single_class [of "''mM''" c] by simp
  show ?thesis
  proof (cases x)
    case Nil
    then show ?thesis by (simp add: tm_ampm_def lang_group lang_seqs conc_char am_pm_def)
  next
    case x1: (Cons a t)
    show ?thesis
    proof (cases t)
      case Nil
      then show ?thesis using x1 by (simp add: tm_ampm_def lang_group lang_seqs conc_char am_pm_def)
    next
      case t1: (Cons b u)
      show ?thesis
      proof (cases u)
        case Nil
        then show ?thesis
          using x1 t1 by (auto simp: tm_ampm_def lang_group lang_seqs conc_char nf(1) c1 c2 am_pm_def)
      next
        case (Cons c v)
        then show ?thesis
          using x1 t1 by (simp add: tm_ampm_def lang_group lang_seqs conc_char am_pm_def)
      qed
    qed
  qed
qed

lemma digit_not_space: "is_digit c \<Longrightarrow> \<not> is_space c"
  by (auto simp: is_digit_def is_space_def)

lemma digit_not_colon: "is_digit c \<Longrightarrow> c \<noteq> CHR '':''"
  by (auto simp: is_digit_def)

lemma clock_iff:
  "clock mx t = (\<exists>h m. t = h @ CHR '':'' # m \<and> hour_upto mx h \<and> minutes m)"
proof
  let ?P = "\<lambda>c. c \<noteq> CHR '':''"
  assume c: "clock mx t"
  then have r: "dropWhile ?P t \<noteq> []" and h: "hour_upto mx (takeWhile ?P t)"
      and m: "minutes (tl (dropWhile ?P t))"
    by (simp_all add: clock_def Let_def)
  have "hd (dropWhile ?P t) = CHR '':''"
    using hd_dropWhile [OF r] by simp
  then have "dropWhile ?P t = CHR '':'' # tl (dropWhile ?P t)"
    using r by (cases "dropWhile ?P t") simp_all
  then have "t = takeWhile ?P t @ CHR '':'' # tl (dropWhile ?P t)"
    using takeWhile_dropWhile_id [of ?P t] by simp
  then show "\<exists>h m. t = h @ CHR '':'' # m \<and> hour_upto mx h \<and> minutes m"
    using h m by blast
next
  let ?P = "\<lambda>c. c \<noteq> CHR '':''"
  assume "\<exists>h m. t = h @ CHR '':'' # m \<and> hour_upto mx h \<and> minutes m"
  then obtain h m where t: "t = h @ CHR '':'' # m" and h: "hour_upto mx h" and m: "minutes m"
    by blast
  have "\<And>x. x \<in> set h \<Longrightarrow> ?P x"
    using h digit_not_colon by (auto simp: hour_upto_def list_all_iff)
  then have "takeWhile ?P t = h" and "dropWhile ?P t = CHR '':'' # m"
    using t by (simp_all add: takeWhile_append2 dropWhile_append2)
  then show "clock mx t"
    using h m by (simp add: clock_def)
qed

lemma clock_ends:
  assumes "clock mx t"
  shows "t \<noteq> []" and "is_digit (hd t)" and "is_digit (last t)"
proof -
  from assms obtain h m where t: "t = h @ CHR '':'' # m" and h: "hour_upto mx h" and m: "minutes m"
    using clock_iff by blast
  show "t \<noteq> []" using t by simp
  from h obtain a h' where "h = a # h'" and "is_digit a"
    by (cases h) (auto simp: hour_upto_def)
  then show "is_digit (hd t)" using t by simp
  from m obtain a b where "m = [a, b]" and "is_digit b"
    by (cases m; cases "tl m") (auto simp: minutes_def)
  then show "is_digit (last t)" using t by simp
qed

lemma sep_word:
  "(\<exists>h v. w = h @ v \<and> A h \<and> (case v of [] \<Rightarrow> False | c # m \<Rightarrow> c = d \<and> B m)) =
   (\<exists>h m. w = h @ d # m \<and> A h \<and> B m)"
proof
  assume "\<exists>h v. w = h @ v \<and> A h \<and> (case v of [] \<Rightarrow> False | c # m \<Rightarrow> c = d \<and> B m)"
  then obtain h v where w: "w = h @ v" and a: "A h"
      and v: "case v of [] \<Rightarrow> False | c # m \<Rightarrow> c = d \<and> B m"
    by blast
  from v obtain m where "v = d # m" and "B m" by (cases v) auto
  then show "\<exists>h m. w = h @ d # m \<and> A h \<and> B m" using w a by blast
next
  assume "\<exists>h m. w = h @ d # m \<and> A h \<and> B m"
  then obtain h m where w: "w = h @ d # m" and a: "A h" and b: "B m" by blast
  have "w = h @ (d # m) \<and> A h \<and> (case d # m of [] \<Rightarrow> False | c # m \<Rightarrow> c = d \<and> B m)"
    using w a b by simp
  then show "\<exists>h v. w = h @ v \<and> A h \<and> (case v of [] \<Rightarrow> False | c # m \<Rightarrow> c = d \<and> B m)"
    by blast
qed

lemma colon_lang: "lang no_flags (lit CHR '':'') = {'':''}"
  by (auto simp: lit_def lit_class nf(1) code_of_char)

lemma clock_lang:
  assumes "\<And>h. (h \<in> H) = hour_upto mx h"
  shows "(w \<in> conc H (conc {'':''} (lang no_flags tm_minutes))) = clock mx w"
proof -
  have "(w \<in> conc H (conc {'':''} (lang no_flags tm_minutes))) =
        (\<exists>h v. w = h @ v \<and> hour_upto mx h \<and> (case v of [] \<Rightarrow> False | c # m \<Rightarrow> c = CHR '':'' \<and> minutes m))"
    by (simp add: conc_word [of w] assms conc_single minutes_lang cong: list.case_cong)
  also have "\<dots> = (\<exists>h m. w = h @ CHR '':'' # m \<and> hour_upto mx h \<and> minutes m)"
    by (rule sep_word)
  finally show ?thesis by (simp add: clock_iff)
qed

lemma tm24_lang: "(w \<in> lang no_flags tm_24) = time_24h w"
proof -
  have "lang no_flags tm_24 =
          conc (lang no_flags tm_hour24) (conc {'':''} (lang no_flags tm_minutes))"
    unfolding tm_24_def
    by (simp add: lang_group lang_seqs colon_lang conc_eps_right del: lang.simps)
  then show ?thesis
    using clock_lang [of "lang no_flags tm_hour24" 24 w] hour24_lang
    by (simp add: time_24h_def)
qed

lemma rstrip_append: "list_all is_space sp \<Longrightarrow> rstrip (c @ sp) = rstrip c"
proof -
  assume "list_all is_space sp"
  then have "\<And>x. x \<in> set (rev sp) \<Longrightarrow> is_space x" by (simp add: list_all_iff)
  then have "dropWhile is_space (rev sp @ rev c) = dropWhile is_space (rev c)"
    by (rule dropWhile_append2)
  then show ?thesis by (simp add: rstrip_def)
qed

lemma rstrip_id: "c \<noteq> [] \<Longrightarrow> \<not> is_space (last c) \<Longrightarrow> rstrip c = c"
  by (cases c rule: rev_cases) (simp_all add: rstrip_def)

lemma rstrip_decomp: "\<exists>sp. u = rstrip u @ sp \<and> list_all is_space sp"
proof -
  have "rstrip u @ rev (takeWhile is_space (rev u)) =
          rev (takeWhile is_space (rev u) @ dropWhile is_space (rev u))"
    by (simp only: rstrip_def rev_append)
  also have "\<dots> = u"
    by (simp only: takeWhile_dropWhile_id rev_rev_ident)
  finally have "u = rstrip u @ rev (takeWhile is_space (rev u))" by simp
  moreover have "list_all is_space (rev (takeWhile is_space (rev u)))"
    by (simp add: list_all_iff) (meson set_takeWhileD)
  ultimately show ?thesis by blast
qed

lemma am_pm_length: "am_pm x \<Longrightarrow> length x = 2 \<and> \<not> is_space (last x)"
  by (auto simp: am_pm_def is_space_def)

lemma time_12h_iff:
  "time_12h t = (\<exists>c sp x. t = c @ sp @ x \<and> clock 12 c \<and> list_all is_space sp \<and> am_pm x)"
proof
  assume t: "time_12h t"
  let ?u = "take (length t - 2) t" and ?x = "drop (length t - 2) t"
  from t have x: "am_pm ?x" and c: "clock 12 (rstrip ?u)"
    by (simp_all add: time_12h_def)
  obtain sp where sp: "?u = rstrip ?u @ sp" and ws: "list_all is_space sp"
    using rstrip_decomp by blast
  have "t = ?u @ ?x" by simp
  then have "t = rstrip ?u @ sp @ ?x" using sp by (metis append.assoc)
  then show "\<exists>c sp x. t = c @ sp @ x \<and> clock 12 c \<and> list_all is_space sp \<and> am_pm x"
    using c ws x by blast
next
  assume "\<exists>c sp x. t = c @ sp @ x \<and> clock 12 c \<and> list_all is_space sp \<and> am_pm x"
  then obtain c sp x where t: "t = c @ sp @ x" and c: "clock 12 c" and ws: "list_all is_space sp"
      and x: "am_pm x"
    by blast
  have lx: "length x = 2" using am_pm_length [OF x] by simp
  then have d: "drop (length t - 2) t = x" and tk: "take (length t - 2) t = c @ sp"
    using t by simp_all
  have "rstrip (c @ sp) = c"
    using rstrip_append [OF ws] rstrip_id [of c] clock_ends [OF c] digit_not_space by simp
  then show "time_12h t"
    using d tk c x lx t by (simp add: time_12h_def)
qed

lemma tm12_lang: "(w \<in> lang no_flags (seqs tm_12)) = time_12h w"
proof -
  let ?C = "conc (lang no_flags tm_hour12) (conc {'':''} (lang no_flags tm_minutes))"
  have c: "\<And>u. (u \<in> ?C) = clock 12 u"
    using clock_lang [of "lang no_flags tm_hour12" 12] hour12_lang by simp
  have "lang no_flags (seqs tm_12) =
          conc ?C (conc (lang no_flags (many rx_s)) (lang no_flags tm_ampm))"
    unfolding tm_12_def
    by (simp add: lang_seqs colon_lang conc_eps_right conc_assoc del: lang.simps)
  then have "(w \<in> lang no_flags (seqs tm_12)) =
        (\<exists>u v. w = u @ v \<and> clock 12 u \<and> (\<exists>sp x. v = sp @ x \<and> list_all is_space sp \<and> am_pm x))"
    by (simp add: conc_word [of w] conc_word [of _ "Collect (list_all is_space)"] c
        lang_spaces nf(1) ampm_lang del: lang.simps)
  also have "\<dots> = (\<exists>c sp x. w = c @ sp @ x \<and> clock 12 c \<and> list_all is_space sp \<and> am_pm x)"
    by blast
  finally show ?thesis by (simp add: time_12h_iff)
qed

text \<open>The pattern as a whole accepts the times, with white space around them.\<close>

lemma core_lang: "(g \<in> lang no_flags (group [[tm_24], tm_12])) = (time_24h g \<or> time_12h g)"
proof -
  have "lang no_flags (group [[tm_24], tm_12]) = lang no_flags tm_24 \<union> lang no_flags (seqs tm_12)"
    by (simp add: lang_group seqs_def conc_eps_right del: lang.simps) (simp add: conc_eps_right)
  then show ?thesis by (simp add: tm24_lang tm12_lang)
qed

lemma core_ends:
  assumes "time_24h g \<or> time_12h g"
  shows "g \<noteq> [] \<and> \<not> is_space (hd g) \<and> \<not> is_space (last g)"
  using assms
proof
  assume "time_24h g"
  then show ?thesis using clock_ends [of 24 g] digit_not_space by (simp add: time_24h_def)
next
  assume "time_12h g"
  then obtain c sp x where g: "g = c @ sp @ x" and c: "clock 12 c" and x: "am_pm x"
    using time_12h_iff by blast
  have "x \<noteq> []" using am_pm_length [OF x] by auto
  then have "last g = last x" using g by simp
  moreover have "hd g = hd c" using g clock_ends(1) [OF c] by simp
  ultimately show ?thesis
    using g clock_ends [OF c] digit_not_space am_pm_length [OF x] by simp
qed

lemma strip_core:
  assumes "g \<noteq> []" and "\<not> is_space (hd g)" and "\<not> is_space (last g)"
      and "list_all is_space w1" and "list_all is_space w2"
  shows "strip (w1 @ g @ w2) = g"
proof -
  have "\<And>x. x \<in> set w1 \<Longrightarrow> is_space x" using assms(4) by (simp add: list_all_iff)
  then have "dropWhile is_space (w1 @ g @ w2) = dropWhile is_space (g @ w2)"
    by (rule dropWhile_append2)
  also have "\<dots> = g @ w2" using assms(1,2) by (cases g) simp_all
  finally show ?thesis
    using rstrip_append [OF assms(5), of g] rstrip_id [OF assms(1,3)] by (simp add: strip_def)
qed

lemma strip_decomp:
  "\<exists>w1 w2. s = w1 @ strip s @ w2 \<and> list_all is_space w1 \<and> list_all is_space w2"
proof -
  obtain sp where sp: "dropWhile is_space s = strip s @ sp" and ws: "list_all is_space sp"
    using rstrip_decomp [of "dropWhile is_space s"] by (auto simp: strip_def)
  have "s = takeWhile is_space s @ dropWhile is_space s" by simp
  then have "s = takeWhile is_space s @ strip s @ sp" using sp by simp
  moreover have "list_all is_space (takeWhile is_space s)"
    by (simp add: list_all_iff) (meson set_takeWhileD)
  ultimately show ?thesis using ws by blast
qed

lemma tm_plain: "plain (Seq (many rx_s) (Seq (group [[tm_24], tm_12]) (many rx_s)))"
  by (simp add: many_def rx_s_def rx_d_def plain_group plain_seqs tm_24_def tm_12_def tm_hour24_def
      tm_hour12_def tm_ampm_def tm_minutes_def lit_def)

lemma regex_TM_is_time: "rx_test regex_TM s = is_time s"
proof -
  let ?G = "group [[tm_24], tm_12]"
  let ?r = "Seq (many rx_s) (Seq ?G (many rx_s))"
  let ?n = "length s"
  have "body regex_TM = Seq Bol (Seq (many rx_s) (Seq ?G (Seq (many rx_s) (Seq Eol Eps))))"
    by (simp add: regex_TM_def literal_def group_def seqs_def)
  then have "rx_test regex_TM s =
      (ends no_flags ?n Eol (ends no_flags ?n ?r (ends no_flags ?n Bol (all_cfgs None s))) \<noteq> [])"
    by (simp add: rx_test_def regex_TM_def literal_def nf del: ends.simps(6))
  also have "\<dots> = (s \<in> lang no_flags ?r)"
    using anchored_test [OF tm_plain, of no_flags s] nf by simp
  also have "\<dots> = (\<exists>w1 g w2. s = w1 @ g @ w2 \<and> list_all is_space w1 \<and>
                        (time_24h g \<or> time_12h g) \<and> list_all is_space w2)"
    by (simp add: conc_word [of s] conc_word [of _ "lang no_flags ?G"] lang_spaces nf core_lang
          del: lang.simps(6))
       blast
  also have "\<dots> = is_time s"
  proof
    assume "\<exists>w1 g w2. s = w1 @ g @ w2 \<and> list_all is_space w1 \<and>
                        (time_24h g \<or> time_12h g) \<and> list_all is_space w2"
    then obtain w1 g w2 where s: "s = w1 @ g @ w2" and w1: "list_all is_space w1"
        and g: "time_24h g \<or> time_12h g" and w2: "list_all is_space w2"
      by blast
    have "strip s = g"
      using strip_core [of g w1 w2] core_ends [OF g] w1 w2 s by simp
    then show "is_time s" using g by (simp add: is_time_def)
  next
    assume "is_time s"
    then have "time_24h (strip s) \<or> time_12h (strip s)" by (simp add: is_time_def)
    then show "\<exists>w1 g w2. s = w1 @ g @ w2 \<and> list_all is_space w1 \<and>
                        (time_24h g \<or> time_12h g) \<and> list_all is_space w2"
      using strip_decomp [of s] by blast
  qed
  finally show ?thesis .
qed

text \<open>
  Claim C5, amended. For every value that is not empty, checkDataType with the data type
  \<open>TM\<close> returns true if and only if the value, as a string and apart from white space
  around it, is \<open>H:MM\<close> or \<open>HH:MM\<close> with an hour of at most 24 and minutes from 00 to 59,
  or such a time with an hour of at most 12 followed by \<open>am\<close> or \<open>pm\<close> in either case, with
  or without white space before it; otherwise it returns false and appends
  \<open>must be a time value.\<close>
\<close>

theorem time_check:
  assumes "nonempty value"
  shows "checkDataType ''TM'' value errors =
           (if is_time (ToString value) then (True, errors)
            else (False, errors @ [JStr ''must be a time value.'']))"
proof -
  have "dataType_valid ''TM'' value = is_time (ToString value)"
    by (simp add: dataType_valid_def test_def regex_TM_is_time)
  moreover have "errorMessage ''TM'' = JStr ''must be a time value.''"
    by (simp add: errorMessage_def errorMessages_def)
  ultimately show ?thesis
    using assms by (simp add: checkDataType_def nonempty_def)
qed

lemma time_samples:
  "is_time ''12:30 pm'' \<and> is_time '' 7:05 '' \<and> is_time ''24:59'' \<and> is_time ''0:30AM'' \<and>
   \<not> is_time ''25:00'' \<and> \<not> is_time ''13:30 pm'' \<and> \<not> is_time ''12:60'' \<and> \<not> is_time ''1230''"
  by code_simp

theorem time_check_witness:
  "nonempty (JStr ''12:30 pm'') \<and>
   checkDataType ''TM'' (JStr ''12:30 pm'') [] = (True, []) \<and>
   checkDataType ''TM'' (JStr ''25:00'') [] = (False, [JStr ''must be a time value.'']) \<and>
   checkDataType ''TM'' (JArr [JStr ''24:59'']) [] = (True, [])"
proof -
  have n: "nonempty (JStr ''12:30 pm'')" "nonempty (JStr ''25:00'')" "nonempty (JArr [JStr ''24:59''])"
    by (simp_all add: nonempty_def)
  show ?thesis
    using time_check [OF n(1), of "[]"] time_check [OF n(2), of "[]"] time_check [OF n(3), of "[]"]
      time_samples n(1)
    by simp
qed

text \<open>
  With the hours a clock shows the claim fails as stated: the pattern also accepts
  \<open>24:59\<close> and \<open>0:30 am\<close>.
\<close>

theorem time_counterexample:
  "checkDataType ''TM'' (JStr ''24:59'') [] = (True, []) \<and> \<not> strict_time ''24:59'' \<and>
   checkDataType ''TM'' (JStr ''0:30 am'') [] = (True, []) \<and> \<not> strict_time ''0:30 am''"
  by code_simp

lemma strict_time_samples:
  "strict_time ''23:59'' \<and> strict_time ''12:30 am'' \<and> strict_time '' 09:05PM ''"
  by code_simp

section \<open>The literals as the parser reads them\<close>

text \<open>
  The syntax trees of the nine literals of checkDataType are the trees the parser of
  \<open>new RegExp\<close> builds from their text.
\<close>

lemma regex_INT_text:
  "parse_pattern (pattern_text ''^~s*(~d+)~s*$'') = POk (body regex_INT)"
  by code_simp

lemma regex_REAL_text:
  "parse_pattern (pattern_text ''^~-?~d+(~.~d*)?$'') = POk (body regex_REAL)"
  by code_simp

lemma regex_PHONE_text:
  "parse_pattern (pattern_text
     (''(((^~s*(~d~d){0,1}~s*(-?|~.)~s*(~(?~d~d~d~)?~s*(-?|~.?)){0,1}~s*~d~d~d~s*(-?|~.?)~s*~d{4}~b)'' @
      ''|(^~s*~+~(?(~d{1,4}~)?(-?|~.?))(~s*~(?~d{2,}~)?~s*(-?|~.?)~s*~d{2,}~s*(-?|~.?)'' @
      ''(~s*~d*~s*(-|~.?)){0,3})))(~s*(x|ext|X)~s*~d+){0,1}$)''))
     = POk (body regex_PHONE)"
  by code_simp

lemma regex_EMAIL_text:
  "parse_pattern (pattern_text ''^~s*((~w+)(~.~w+)*)@((~w+)(~.~w+)+)$'') = POk (body regex_EMAIL)"
  by code_simp

lemma regex_URL_text:
  "parse_pattern (pattern_text ''^(https?:~/~/)?([~da-z~.-]+)~.([a-z~.]{2,6})([~/~w ~.-]*)*~/?$'')
     = POk (body regex_URL)"
  by code_simp

lemma regex_TM_text:
  "parse_pattern (pattern_text
     ''^~s*(((~d|[0-1]~d|2[0-4]):([0-5]~d))|(~d|0~d|1[0-2]):([0-5]~d)~s*([aApP][mM]))~s*$'')
     = POk (body regex_TM)"
  by code_simp

lemma regex_YEAR_text:
  "parse_pattern (pattern_text ''^~d{1,4}$'') = POk (body regex_YEAR)"
  by code_simp

lemma regex_MONTH_text:
  "parse_pattern (pattern_text ''^(0?[1-9]|1[012])$'') = POk (body regex_MONTH)"
  by code_simp

lemma regex_DAY_text:
  "parse_pattern (pattern_text ''^(0?[1-9]|[12]~d|3[01])$'') = POk (body regex_DAY)"
  by code_simp

end
